theory Spec2Isabelle
  imports Complex_Main
begin

section \<open>Python values and the JSON codec of the host\<close>

text \<open>
  The plugin is Python: every field of a workspace holds a dynamically typed value.
  The values that occur are \<^verbatim>\<open>None\<close>, booleans, integers, floats, strings, lists, tuples
  and dictionaries with string keys. A dictionary is an association list in insertion
  order, looked up with \<^const>\<open>map_of\<close>. A float is carried as the real number it denotes;
  no arithmetic is done on it.
\<close>

datatype pyval =
    PNone
  | PBool bool
  | PInt int
  | PFloat real
  | PStr string
  | PList "pyval list"
  | PTuple "pyval list"
  | PDict "(string \<times> pyval) list"

datatype error =
    FileNotFoundError
  | FileExistsError
  | IsADirectoryError
  | KeyError string
  | TypeError
  | ValueError
  | IndexError
  | AttributeError

text \<open>
  \<^verbatim>\<open>sublime.encode_value\<close> and \<^verbatim>\<open>sublime.decode_value\<close> belong to the host editor. They are
  modelled by the JSON data model: a document is null, a boolean, a number, a string, an
  array or an object; JSON has one sequence type, so a tuple and a list are both written
  as an array, and an array is read back as a list. The text of a file is identified
  with the document it denotes.
\<close>

datatype json =
    JNull
  | JBool bool
  | JInt int
  | JFloat real
  | JStr string
  | JArr "json list"
  | JObj "(string \<times> json) list"

primrec encode_value :: "pyval \<Rightarrow> json" where
  "encode_value PNone = JNull"
| "encode_value (PBool b) = JBool b"
| "encode_value (PInt i) = JInt i"
| "encode_value (PFloat r) = JFloat r"
| "encode_value (PStr s) = JStr s"
| "encode_value (PList xs) = JArr (map encode_value xs)"
| "encode_value (PTuple xs) = JArr (map encode_value xs)"
| "encode_value (PDict kvs) = JObj (map (map_prod id encode_value) kvs)"

primrec decode_value :: "json \<Rightarrow> pyval" where
  "decode_value JNull = PNone"
| "decode_value (JBool b) = PBool b"
| "decode_value (JInt i) = PInt i"
| "decode_value (JFloat r) = PFloat r"
| "decode_value (JStr s) = PStr s"
| "decode_value (JArr xs) = PList (map decode_value xs)"
| "decode_value (JObj kvs) = PDict (map (map_prod id decode_value) kvs)"

text \<open>The value a Python value comes back as: every tuple in it has become a list.\<close>

primrec as_lists :: "pyval \<Rightarrow> pyval" where
  "as_lists PNone = PNone"
| "as_lists (PBool b) = PBool b"
| "as_lists (PInt i) = PInt i"
| "as_lists (PFloat r) = PFloat r"
| "as_lists (PStr s) = PStr s"
| "as_lists (PList xs) = PList (map as_lists xs)"
| "as_lists (PTuple xs) = PList (map as_lists xs)"
| "as_lists (PDict kvs) = PDict (map (map_prod id as_lists) kvs)"

text \<open>Python's truth value of an object (\<^verbatim>\<open>if x:\<close>, \<^verbatim>\<open>not x\<close>).\<close>

fun truthy :: "pyval \<Rightarrow> bool" where
  "truthy PNone = False"
| "truthy (PBool b) = b"
| "truthy (PInt i) = (i \<noteq> 0)"
| "truthy (PFloat r) = (r \<noteq> 0)"
| "truthy (PStr s) = (s \<noteq> [])"
| "truthy (PList xs) = (xs \<noteq> [])"
| "truthy (PTuple xs) = (xs \<noteq> [])"
| "truthy (PDict kvs) = (kvs \<noteq> [])"

text \<open>
  \<^verbatim>\<open>obj[key]\<close> for a string key: a dictionary looks the key up and raises
  \<^verbatim>\<open>KeyError\<close> when it is missing; every other value raises \<^verbatim>\<open>TypeError\<close>.
\<close>

fun getitem_str :: "pyval \<Rightarrow> string \<Rightarrow> error + pyval" where
  "getitem_str (PDict kvs) k =
     (case map_of kvs k of None \<Rightarrow> Inl (KeyError k) | Some v \<Rightarrow> Inr v)"
| "getitem_str _ k = Inl TypeError"

section \<open>File system and paths\<close>

text \<open>
  The file system is a flat name space: the set of paths that are directories and the
  documents stored under the paths that are files. Paths are POSIX paths
  (\<^verbatim>\<open>os.path\<close> is \<^verbatim>\<open>posixpath\<close>, \<^verbatim>\<open>os.path.sep\<close> is \<^verbatim>\<open>/\<close>).
\<close>

record filesystem =
  dirs :: "string set"
  files :: "string \<rightharpoonup> json"

definition isdir :: "filesystem \<Rightarrow> string \<Rightarrow> bool" where
  "isdir fs p = (p \<in> dirs fs)"

definition isfile :: "filesystem \<Rightarrow> string \<Rightarrow> bool" where
  "isfile fs p = (files fs p \<noteq> None)"

text \<open>\<^verbatim>\<open>os.makedirs(d)\<close>: fails on the empty path and on a path that is a file.\<close>

definition makedirs :: "filesystem \<Rightarrow> string \<Rightarrow> error + filesystem" where
  "makedirs fs d =
     (if d = [] then Inl FileNotFoundError
      else if isfile fs d then Inl FileExistsError
      else Inr (fs\<lparr>dirs := insert d (dirs fs)\<rparr>))"

text \<open>\<^verbatim>\<open>open(p, 'w')\<close> followed by one \<^verbatim>\<open>write\<close>, and \<^verbatim>\<open>open(p)\<close> followed by \<^verbatim>\<open>read\<close>.\<close>

definition open_write :: "filesystem \<Rightarrow> string \<Rightarrow> json \<Rightarrow> error + filesystem" where
  "open_write fs p doc =
     (if isdir fs p then Inl IsADirectoryError
      else if p = [] then Inl FileNotFoundError
      else Inr (fs\<lparr>files := (files fs)(p \<mapsto> doc)\<rparr>))"

definition open_read :: "filesystem \<Rightarrow> string \<Rightarrow> error + json" where
  "open_read fs p =
     (if isdir fs p then Inl IsADirectoryError
      else case files fs p of None \<Rightarrow> Inl FileNotFoundError | Some doc \<Rightarrow> Inr doc)"

text \<open>\<^verbatim>\<open>str.rfind\<close> for one character: the last index of it, or -1.\<close>

fun rfind :: "char \<Rightarrow> string \<Rightarrow> int" where
  "rfind c [] = -1"
| "rfind c (x # xs) =
     (let r = rfind c xs in if 0 \<le> r then r + 1 else if x = c then 0 else -1)"

definition rstrip :: "char \<Rightarrow> string \<Rightarrow> string" where
  "rstrip c s = rev (dropWhile (\<lambda>x. x = c) (rev s))"

text \<open>\<^verbatim>\<open>posixpath.dirname\<close>.\<close>

definition dirname :: "string \<Rightarrow> string" where
  "dirname p =
     (let i = rfind CHR ''/'' p + 1;
          head = take (nat i) p
      in if head \<noteq> [] \<and> \<not> list_all (\<lambda>x. x = CHR ''/'') head
         then rstrip CHR ''/'' head else head)"

section \<open>The workspace record\<close>

record EasyWorkspace =
  layout :: pyval
  folders :: pyval
  active :: pyval
  groups :: pyval
  filename :: string

text \<open>\<^verbatim>\<open>EasyWorkspace.__init__\<close>.\<close>

definition EasyWorkspace_init :: EasyWorkspace where
  "EasyWorkspace_init =
     \<lparr> layout = PDict [(''rows'', PList [PFloat 0, PFloat 1]),
                        (''cells'', PList [PList [PInt 0, PInt 0, PInt 1, PInt 1]]),
                        (''cols'', PList [PFloat 0, PFloat 1])],
       folders = PList [],
       active = PTuple [],
       groups = PList [],
       filename = [] \<rparr>"

text \<open>\<^verbatim>\<open>vars(self)\<close>: the dictionary of the instance's attributes.\<close>

definition vars :: "EasyWorkspace \<Rightarrow> pyval" where
  "vars self =
     PDict [(''layout'', layout self), (''folders'', folders self),
            (''active'', active self), (''groups'', groups self),
            (''filename'', PStr (filename self))]"

text \<open>
  \<^verbatim>\<open>saveToFile\<close>: the directory of the file is created when it is missing, the document
  is written, and only then the workspace takes the file's name.
\<close>

definition saveToFile ::
  "filesystem \<Rightarrow> EasyWorkspace \<Rightarrow> string \<Rightarrow> error + filesystem \<times> EasyWorkspace" where
  "saveToFile fs self fname =
     (let fileDir = dirname fname in
      case (if \<not> isdir fs fileDir then makedirs fs fileDir else Inr fs) of
        Inl e \<Rightarrow> Inl e
      | Inr fs1 \<Rightarrow>
          (case open_write fs1 fname (encode_value (vars self)) of
             Inl e \<Rightarrow> Inl e
           | Inr fs2 \<Rightarrow> Inr (fs2, self\<lparr>filename := fname\<rparr>)))"

text \<open>\<^verbatim>\<open>buildFromJSON\<close>: four lookups, in the order of the source, with no validation.\<close>

definition buildFromJSON :: "EasyWorkspace \<Rightarrow> pyval \<Rightarrow> error + EasyWorkspace" where
  "buildFromJSON self js =
     (case getitem_str js ''layout'' of Inl e \<Rightarrow> Inl e | Inr l \<Rightarrow>
     (case getitem_str js ''folders'' of Inl e \<Rightarrow> Inl e | Inr f \<Rightarrow>
     (case getitem_str js ''active'' of Inl e \<Rightarrow> Inl e | Inr a \<Rightarrow>
     (case getitem_str js ''groups'' of Inl e \<Rightarrow> Inl e | Inr g \<Rightarrow>
        Inr (self\<lparr>layout := l, folders := f, active := a, groups := g\<rparr>)))))"

text \<open>
  \<^verbatim>\<open>loadFromFile\<close>: only \<^verbatim>\<open>FileNotFoundError\<close> is caught (a status message is shown);
  the file name is set on both paths. The second component is the list of status
  messages shown.
\<close>

definition loadFromFile ::
  "filesystem \<Rightarrow> EasyWorkspace \<Rightarrow> string \<Rightarrow> error + EasyWorkspace \<times> string list" where
  "loadFromFile fs self fname =
     (case open_read fs fname of
        Inl FileNotFoundError \<Rightarrow>
          Inr (self\<lparr>filename := fname\<rparr>,
               [''File '' @ fname @ '' does not exist. Opening as New Workspace.''])
      | Inl e \<Rightarrow> Inl e
      | Inr doc \<Rightarrow>
          (case buildFromJSON self (decode_value doc) of
             Inl e \<Rightarrow> Inl e
           | Inr self' \<Rightarrow> Inr (self'\<lparr>filename := fname\<rparr>, [])))"

section \<open>Capturing a window\<close>

text \<open>
  What \<^verbatim>\<open>buildFromWindow\<close> reads of the host: a view with its identity, file name
  (\<^verbatim>\<open>None\<close> for a buffer never saved), visible region, selection regions and read-only
  flag; a window with its layout, folders, active view, the host's
  \<^verbatim>\<open>get_view_index\<close> and, for each group in order, the views of the group and the
  group's active view.
\<close>

record sview =
  view_id :: nat
  file_name :: "string option"
  visible_region :: "int \<times> int"
  sel :: "(int \<times> int) list"
  is_read_only :: bool

record swindow =
  w_id :: nat
  w_layout :: pyval
  w_folders :: "string list"
  w_active_view :: "sview option"
  w_get_view_index :: "sview option \<Rightarrow> error + int \<times> int"
  w_groups :: "(sview list \<times> sview option) list"

text \<open>Two view objects are equal when they have the same identity; no view equals \<^verbatim>\<open>None\<close>.\<close>

definition same_view :: "sview \<Rightarrow> sview option \<Rightarrow> bool" where
  "same_view v a = (case a of None \<Rightarrow> False | Some u \<Rightarrow> view_id u = view_id v)"

text \<open>\<^verbatim>\<open>sViews.index(activeSView)\<close>: the first position of an equal element, or \<^verbatim>\<open>ValueError\<close>.\<close>

fun list_index :: "sview list \<Rightarrow> sview option \<Rightarrow> error + nat" where
  "list_index [] a = Inl ValueError"
| "list_index (v # vs) a =
     (if same_view v a then Inr 0
      else (case list_index vs a of Inl e \<Rightarrow> Inl e | Inr n \<Rightarrow> Inr (Suc n)))"

text \<open>\<^verbatim>\<open>sViews.index(activeSView) if sViews else 0\<close>.\<close>

definition active_index :: "sview list \<Rightarrow> sview option \<Rightarrow> error + nat" where
  "active_index sViews activeSView =
     (if sViews \<noteq> [] then list_index sViews activeSView else Inr 0)"

definition view_dict :: "string \<Rightarrow> int \<times> int \<Rightarrow> int \<times> int \<Rightarrow> bool \<Rightarrow> pyval" where
  "view_dict f vis s ro =
     PDict [(''file'', PStr f),
            (''visible'', PTuple [PInt (fst vis), PInt (snd vis)]),
            (''selection'', PTuple [PInt (fst s), PInt (snd s)]),
            (''read_only'', PBool ro)]"

text \<open>
  The inner loop: a view without a file is passed over; \<^verbatim>\<open>sView.sel()[0]\<close> raises
  \<^verbatim>\<open>IndexError\<close> on a view with a file and no selection region.
\<close>

fun fill_views :: "sview list \<Rightarrow> pyval list \<Rightarrow> error + pyval list" where
  "fill_views [] acc = Inr acc"
| "fill_views (v # vs) acc =
     (case file_name v of
        None \<Rightarrow> fill_views vs acc
      | Some f \<Rightarrow>
          if f = [] then fill_views vs acc
          else (case sel v of
                  [] \<Rightarrow> Inl IndexError
                | s # _ \<Rightarrow>
                    fill_views vs (acc @ [view_dict f (visible_region v) s (is_read_only v)])))"

definition group_dict :: "sview list \<Rightarrow> sview option \<Rightarrow> error + pyval" where
  "group_dict sViews activeSView =
     (case active_index sViews activeSView of
        Inl e \<Rightarrow> Inl e
      | Inr a \<Rightarrow>
          (case fill_views sViews [] of
             Inl e \<Rightarrow> Inl e
           | Inr vs \<Rightarrow> Inr (PDict [(''active'', PInt (int a)), (''views'', PList vs)])))"

text \<open>\<^verbatim>\<open>self.groups.append(group)\<close>: only a list has \<^verbatim>\<open>append\<close>.\<close>

fun py_append :: "pyval \<Rightarrow> pyval \<Rightarrow> error + pyval" where
  "py_append (PList xs) x = Inr (PList (xs @ [x]))"
| "py_append _ x = Inl AttributeError"

text \<open>The outer loop over the groups of the window.\<close>

fun capture_groups :: "(sview list \<times> sview option) list \<Rightarrow> pyval \<Rightarrow> error + pyval" where
  "capture_groups [] gs = Inr gs"
| "capture_groups ((sViews, activeSView) # rest) gs =
     (case group_dict sViews activeSView of
        Inl e \<Rightarrow> Inl e
      | Inr g \<Rightarrow>
          (case py_append gs g of
             Inl e \<Rightarrow> Inl e
           | Inr gs' \<Rightarrow> capture_groups rest gs'))"

definition buildFromWindow :: "EasyWorkspace \<Rightarrow> swindow \<Rightarrow> error + EasyWorkspace" where
  "buildFromWindow self window =
     (case w_get_view_index window (w_active_view window) of
        Inl e \<Rightarrow> Inl e
      | Inr gi \<Rightarrow>
          (let self1 = self\<lparr>layout := w_layout window,
                            folders := PList (map PStr (w_folders window)),
                            active := PTuple [PInt (fst gi), PInt (snd gi)]\<rparr>
           in case capture_groups (w_groups window) (groups self1) of
                Inl e \<Rightarrow> Inl e
              | Inr gs \<Rightarrow> Inr (self1\<lparr>groups := gs\<rparr>)))"

section \<open>What a capture holds\<close>

text \<open>
  A view is backed by a file when \<^verbatim>\<open>file_name()\<close> is neither \<^verbatim>\<open>None\<close> nor empty. The
  record of such a view, the position of the active view among the views of its group,
  and the record of a group are written down here to state what the loops compute.
\<close>

definition backed :: "sview \<Rightarrow> bool" where
  "backed v = (case file_name v of None \<Rightarrow> False | Some f \<Rightarrow> f \<noteq> [])"

definition view_record :: "sview \<Rightarrow> pyval" where
  "view_record v =
     view_dict (the (file_name v)) (visible_region v) (hd (sel v)) (is_read_only v)"

definition position_of :: "sview option \<Rightarrow> sview list \<Rightarrow> nat" where
  "position_of a vs = length (takeWhile (\<lambda>v. \<not> same_view v a) vs)"

definition group_record :: "sview list \<times> sview option \<Rightarrow> pyval" where
  "group_record g =
     PDict [(''active'', PInt (int (position_of (snd g) (fst g)))),
            (''views'', PList (map view_record (filter backed (fst g))))]"

text \<open>
  A group can be captured when its active view is one of its views (or it has no view)
  and every view backed by a file has a selection region. Nothing is asked of a view
  without a file.
\<close>

definition capturable :: "sview list \<times> sview option \<Rightarrow> bool" where
  "capturable g =
     ((fst g = [] \<or> list_ex (\<lambda>v. same_view v (snd g)) (fst g))
      \<and> list_all (\<lambda>v. \<not> backed v \<or> sel v \<noteq> []) (fst g))"

section \<open>Settings and workspace paths\<close>

text \<open>
  The plugin's settings file, read with \<^verbatim>\<open>settings.get(key, default)\<close>: a key that is not
  set yields the default.
\<close>

type_synonym settings = "string \<Rightarrow> pyval option"

definition settings_get :: "settings \<Rightarrow> string \<Rightarrow> pyval \<Rightarrow> pyval" where
  "settings_get st k d = (case st k of None \<Rightarrow> d | Some v \<Rightarrow> v)"

text \<open>\<^verbatim>\<open>b.startswith('/')\<close> and \<^verbatim>\<open>path.endswith('/')\<close>.\<close>

definition starts_with_sep :: "string \<Rightarrow> bool" where
  "starts_with_sep b = (case b of [] \<Rightarrow> False | c # _ \<Rightarrow> c = CHR ''/'')"

definition ends_with_sep :: "string \<Rightarrow> bool" where
  "ends_with_sep a = (case rev a of [] \<Rightarrow> False | c # _ \<Rightarrow> c = CHR ''/'')"

text \<open>\<^verbatim>\<open>posixpath.join(a, b)\<close>: an absolute second component replaces the first.\<close>

definition path_join :: "string \<Rightarrow> string \<Rightarrow> string" where
  "path_join a b =
     (if starts_with_sep b then b
      else if a = [] \<or> ends_with_sep a then a @ b
      else a @ ''/'' @ b)"

text \<open>
  \<^verbatim>\<open>posixpath.splitext\<close>: the extension starts at the last dot of the last component,
  unless only dots precede it there. The loop of \<^verbatim>\<open>genericpath._splitext\<close> looks for a
  character that is not a dot between the start of the component and the last dot.
\<close>

function splitext_scan :: "string \<Rightarrow> int \<Rightarrow> int \<Rightarrow> string \<times> string" where
  "splitext_scan p filenameIndex dotIndex =
     (if filenameIndex < dotIndex then
        (if take 1 (drop (nat filenameIndex) p) \<noteq> ''.''
         then (take (nat dotIndex) p, drop (nat dotIndex) p)
         else splitext_scan p (filenameIndex + 1) dotIndex)
      else (p, []))"
  by pat_completeness auto
termination
  by (relation "measure (\<lambda>(p, i, d). nat (d - i))") auto

declare splitext_scan.simps [simp del]

definition splitext :: "string \<Rightarrow> string \<times> string" where
  "splitext p =
     (let sepIndex = rfind CHR ''/'' p;
          dotIndex = rfind CHR ''.'' p
      in if sepIndex < dotIndex then splitext_scan p (sepIndex + 1) dotIndex
         else (p, []))"

text \<open>
  \<^verbatim>\<open>getWorkspacesDir\<close>: the configured folder, with a separator appended, under the
  host's packages path. Appending to a setting that is not a string raises
  \<^verbatim>\<open>TypeError\<close>.
\<close>

definition getWorkspacesDir :: "settings \<Rightarrow> string \<Rightarrow> error + string" where
  "getWorkspacesDir st packages_path =
     (case settings_get st ''easy_ws_save_directory'' (PStr ''EasyWorkspace/workspaces'') of
        PStr wsFolder \<Rightarrow> Inr (path_join packages_path (wsFolder @ ''/''))
      | _ \<Rightarrow> Inl TypeError)"

text \<open>\<^verbatim>\<open>getWorkspaceFilepath\<close>.\<close>

definition getWorkspaceFilepath :: "settings \<Rightarrow> string \<Rightarrow> string \<Rightarrow> error + string" where
  "getWorkspaceFilepath st packages_path fname =
     (case getWorkspacesDir st packages_path of
        Inl e \<Rightarrow> Inl e
      | Inr workspacesDir \<Rightarrow>
          (let baseName = fst (splitext fname);
               extension = snd (splitext fname)
           in if extension = [] then
                (case settings_get st ''easy_ws_file_extension'' (PStr ''.ws'') of
                   PStr ext \<Rightarrow> Inr (path_join workspacesDir (baseName @ ext))
                 | _ \<Rightarrow> Inl TypeError)
              else Inr (path_join workspacesDir (baseName @ extension))))"

section \<open>The host editor\<close>

text \<open>
  Calls into the host are recorded in the order they are made. The host's functions are
  taken to accept their arguments: a call is recorded with the values handed to it and
  does not raise. \<^verbatim>\<open>sublime.Region(*xs)\<close> and its \<^verbatim>\<open>end()\<close> and \<^verbatim>\<open>begin()\<close> are host
  code, so \<^verbatim>\<open>sView.show(r.end(), False)\<close> is recorded with the unpacked arguments of
  the region. A window is named by its identity, a view of the host by a handle; a
  window object is true as a condition when its identity is not 0. \<^verbatim>\<open>time.sleep\<close> is
  not recorded. What the host does in response to a call, such as calling a listener
  for a window command, is a later event.

  The plugin's own window commands are run through the host as well
  (\<^verbatim>\<open>window.run_command(name, args)\<close>). Their keyword arguments are the file name (absent
  when the key is not given) and the two prompt flags (false when not given).
\<close>

datatype command =
    save_easy_workspace
  | save_as_easy_workspace
  | open_easy_workspace
  | delete_easy_workspace
  | show_opened_easy_workspace
  | reopen_last_easy_workspace

record kwargs =
  kw_filename :: "string option"
  kw_promptOverwrite :: bool
  kw_promptSave :: bool

datatype host_call =
    StatusMessage string
  | WindowCommand nat string
  | PluginCommand nat command kwargs
  | AppCommand string
  | SetLayout nat pyval
  | SetProjectData nat pyval
  | OpenFile nat pyval
  | SetViewIndex nat nat nat nat
  | SetReadOnly nat pyval
  | ShowRegionEnd nat "pyval list"
  | ShowRegionBegin nat "pyval list"
  | SelAdd nat "pyval list"
  | FocusView nat nat
  | FocusGroup nat pyval
  | ShowInputPanel nat string
  | ShowQuickPanel nat "string list"
  | YesNoCancelDialog string

datatype dialog_answer = DIALOG_CANCEL | DIALOG_YES | DIALOG_NO

text \<open>
  What the plugin asks of the host and of the user. An answer may depend on the calls
  made so far: the project data of the window, the handle \<^verbatim>\<open>open_file\<close> returns, the
  views of a group, the user's answer to a dialog, the result of \<^verbatim>\<open>os.walk\<close>, and the
  list of open windows after the command \<^verbatim>\<open>new_window\<close>.
\<close>

record host =
  h_settings :: settings
  h_packages_path :: string
  h_project_data :: "host_call list \<Rightarrow> pyval"
  h_open_file :: "host_call list \<Rightarrow> pyval \<Rightarrow> nat"
  h_views_in_group :: "host_call list \<Rightarrow> nat \<Rightarrow> nat list"
  h_dialog :: "host_call list \<Rightarrow> string \<Rightarrow> dialog_answer"
  h_walk :: "string \<Rightarrow> (string \<times> string list \<times> string list) list"
  h_new_window :: "nat list \<Rightarrow> nat list"

text \<open>
  A step that makes host calls returns the calls made so far and the exception that
  ended it, if any; \<open>and_then\<close> runs the next step unless an exception was raised.
\<close>

type_synonym outcome = "host_call list \<times> error option"

definition and_then :: "outcome \<Rightarrow> (host_call list \<Rightarrow> outcome) \<Rightarrow> outcome" where
  "and_then r k = (case snd r of Some e \<Rightarrow> r | None \<Rightarrow> k (fst r))"

section \<open>Python sequences\<close>

text \<open>
  Iteration (\<^verbatim>\<open>for x in v\<close>, \<^verbatim>\<open>enumerate(v)\<close>, \<^verbatim>\<open>*v\<close>): a list or tuple yields its
  elements, a string its characters, a dictionary its keys; nothing else is iterable.
\<close>

fun py_iter :: "pyval \<Rightarrow> error + pyval list" where
  "py_iter (PList xs) = Inr xs"
| "py_iter (PTuple xs) = Inr xs"
| "py_iter (PStr s) = Inr (map (\<lambda>c. PStr [c]) s)"
| "py_iter (PDict kvs) = Inr (map (\<lambda>kv. PStr (fst kv)) kvs)"
| "py_iter _ = Inl TypeError"

text \<open>\<^verbatim>\<open>xs[k]\<close> on a list: a negative index counts from the end.\<close>

definition int_index :: "'a list \<Rightarrow> int \<Rightarrow> error + 'a" where
  "int_index xs k =
     (let n = int (length xs); j = (if k < 0 then k + n else k)
      in if 0 \<le> j \<and> j < n then Inr (xs ! nat j) else Inl IndexError)"

text \<open>A list is indexed by an integer or a boolean (\<^verbatim>\<open>True\<close> is 1); anything else raises.\<close>

fun index_list :: "'a list \<Rightarrow> pyval \<Rightarrow> error + 'a" where
  "index_list xs (PInt k) = int_index xs k"
| "index_list xs (PBool b) = int_index xs (if b then 1 else 0)"
| "index_list xs _ = Inl TypeError"

text \<open>\<^verbatim>\<open>obj[0]\<close>.\<close>

fun first_item :: "pyval \<Rightarrow> error + pyval" where
  "first_item (PList xs) = int_index xs 0"
| "first_item (PTuple xs) = int_index xs 0"
| "first_item (PStr s) = int_index (map (\<lambda>c. PStr [c]) s) 0"
| "first_item (PDict kvs) = Inl (KeyError ''0'')"
| "first_item _ = Inl TypeError"

text \<open>\<^verbatim>\<open>obj.get(key, default)\<close>: only a dictionary has \<^verbatim>\<open>get\<close>.\<close>

fun py_get :: "pyval \<Rightarrow> string \<Rightarrow> pyval \<Rightarrow> error + pyval" where
  "py_get (PDict kvs) k d = Inr (case map_of kvs k of None \<Rightarrow> d | Some v \<Rightarrow> v)"
| "py_get _ k d = Inl AttributeError"

text \<open>The dictionary after the object stored under an existing key has been replaced.\<close>

definition dict_set :: "(string \<times> pyval) list \<Rightarrow> string \<Rightarrow> pyval \<Rightarrow> (string \<times> pyval) list" where
  "dict_set kvs k v = map (\<lambda>kv. if fst kv = k then (k, v) else kv) kvs"

section \<open>Normalising a path\<close>

text \<open>\<^verbatim>\<open>str.split('/')\<close> and \<^verbatim>\<open>'/'.join\<close>.\<close>

fun split_sep :: "string \<Rightarrow> string list" where
  "split_sep [] = [[]]"
| "split_sep (c # cs) =
     (if c = CHR ''/'' then [] # split_sep cs
      else (case split_sep cs of [] \<Rightarrow> [[c]] | x # xs \<Rightarrow> (c # x) # xs))"

fun join_sep :: "string list \<Rightarrow> string" where
  "join_sep [] = []"
| "join_sep [x] = x"
| "join_sep (x # y # ys) = x @ ''/'' @ join_sep (y # ys)"

text \<open>\<^verbatim>\<open>posixpath.normpath\<close>: the loop over the components, then the function.\<close>

fun normpath_comps :: "nat \<Rightarrow> string list \<Rightarrow> string list \<Rightarrow> string list" where
  "normpath_comps initial_slashes [] new_comps = new_comps"
| "normpath_comps initial_slashes (part # comps) new_comps =
     (if part = [] \<or> part = ''.'' then normpath_comps initial_slashes comps new_comps
      else if part \<noteq> ''..'' \<or> (initial_slashes = 0 \<and> new_comps = [])
              \<or> (new_comps \<noteq> [] \<and> last new_comps = ''..'')
      then normpath_comps initial_slashes comps (new_comps @ [part])
      else if new_comps \<noteq> [] then normpath_comps initial_slashes comps (butlast new_comps)
      else normpath_comps initial_slashes comps new_comps)"

definition normpath :: "string \<Rightarrow> string" where
  "normpath path =
     (if path = [] then ''.''
      else
        let initial_slashes =
              (if starts_with_sep path then
                 (if take 2 path = ''//'' \<and> take 3 path \<noteq> ''///'' then 2 else 1)
               else (0::nat));
            comps = normpath_comps initial_slashes (split_sep path) [];
            joined = replicate initial_slashes CHR ''/'' @ join_sep comps
        in if joined = [] then ''.'' else joined)"

section \<open>Applying a workspace to a window\<close>

text \<open>
  \<^verbatim>\<open>__openFolderInWindow\<close>. \<^verbatim>\<open>os.path.isdir\<close> answers for a string; an integer is a
  file descriptor, none of which is a directory here, and any other value raises
  \<^verbatim>\<open>TypeError\<close>. The loop looks for the folder among those of the project data.
\<close>

fun already_open :: "pyval list \<Rightarrow> string \<Rightarrow> error + bool" where
  "already_open [] folder = Inr False"
| "already_open (f # rest) folder =
     (case getitem_str f ''path'' of
        Inl e \<Rightarrow> Inl e
      | Inr p \<Rightarrow> if truthy p \<and> p = PStr folder then Inr True else already_open rest folder)"

definition add_folder :: "host \<Rightarrow> nat \<Rightarrow> string \<Rightarrow> host_call list \<Rightarrow> outcome" where
  "add_folder h window path calls =
     (let project_data =
            (if truthy (h_project_data h calls) then h_project_data h calls
             else PDict [(''folders'', PList [])]);
          folder = normpath path
      in case getitem_str project_data ''folders'' of
           Inl e \<Rightarrow> (calls, Some e)
         | Inr fl \<Rightarrow>
             (case py_iter fl of
                Inl e \<Rightarrow> (calls, Some e)
              | Inr entries \<Rightarrow>
                  (case already_open entries folder of
                     Inl e \<Rightarrow> (calls, Some e)
                   | Inr True \<Rightarrow> (calls, None)
                   | Inr False \<Rightarrow>
                       (case py_append fl
                               (PDict [(''path'', PStr folder),
                                       (''follow_symlinks'', PBool True)]) of
                          Inl e \<Rightarrow> (calls, Some e)
                        | Inr fl' \<Rightarrow>
                            (case project_data of
                               PDict kvs \<Rightarrow>
                                 (calls @ [SetProjectData window
                                             (PDict (dict_set kvs ''folders'' fl'))], None)
                             | _ \<Rightarrow> (calls, Some TypeError))))))"

definition openFolderInWindow ::
  "host \<Rightarrow> filesystem \<Rightarrow> nat \<Rightarrow> pyval \<Rightarrow> host_call list \<Rightarrow> outcome" where
  "openFolderInWindow h fs window folder calls =
     (if window = 0 \<or> \<not> truthy folder then (calls, None)
      else (case folder of
              PStr path \<Rightarrow> if isdir fs path then add_folder h window path calls
                           else (calls, None)
            | PInt _ \<Rightarrow> (calls, None)
            | PBool _ \<Rightarrow> (calls, None)
            | _ \<Rightarrow> (calls, Some TypeError)))"

fun open_folders ::
  "host \<Rightarrow> filesystem \<Rightarrow> nat \<Rightarrow> pyval list \<Rightarrow> host_call list \<Rightarrow> outcome" where
  "open_folders h fs window [] calls = (calls, None)"
| "open_folders h fs window (folder # rest) calls =
     and_then (openFolderInWindow h fs window folder calls) (open_folders h fs window rest)"

text \<open>
  The body of the loop over the views of group \<open>i\<close>, for the view record at position
  \<open>j\<close>: the file is opened and placed, the read-only flag is set, and the visible region
  and the selection are restored when the settings ask for it.
\<close>

definition show_region :: "host \<Rightarrow> nat \<Rightarrow> pyval \<Rightarrow> host_call list \<Rightarrow> outcome" where
  "show_region h sView view calls =
     (if truthy (settings_get (h_settings h) ''easy_ws_read_view_region'' (PBool False)) then
        (case getitem_str view ''visible'' of
           Inl e \<Rightarrow> (calls, Some e)
         | Inr vis \<Rightarrow>
             (case py_iter vis of
                Inl e \<Rightarrow> (calls, Some e)
              | Inr args \<Rightarrow>
                  (calls @ [ShowRegionEnd sView args, ShowRegionBegin sView args], None)))
      else (calls, None))"

definition add_selection :: "host \<Rightarrow> nat \<Rightarrow> pyval \<Rightarrow> host_call list \<Rightarrow> outcome" where
  "add_selection h sView view calls =
     (if truthy (settings_get (h_settings h) ''easy_ws_read_view_selection'' (PBool False)) then
        (case getitem_str view ''selection'' of
           Inl e \<Rightarrow> (calls, Some e)
         | Inr sl \<Rightarrow>
             (case py_iter sl of
                Inl e \<Rightarrow> (calls, Some e)
              | Inr args \<Rightarrow> (calls @ [SelAdd sView args], None)))
      else (calls, None))"

definition open_view ::
  "host \<Rightarrow> nat \<Rightarrow> nat \<Rightarrow> nat \<Rightarrow> pyval \<Rightarrow> host_call list \<Rightarrow> outcome" where
  "open_view h window i j view calls =
     (case getitem_str view ''file'' of
        Inl e \<Rightarrow> (calls, Some e)
      | Inr file \<Rightarrow>
          (let sView = h_open_file h calls file;
               calls1 = calls @ [OpenFile window file, SetViewIndex window sView i j]
           in case py_get view ''read_only'' (PBool False) of
                Inl e \<Rightarrow> (calls1, Some e)
              | Inr ro \<Rightarrow>
                  and_then (show_region h sView view (calls1 @ [SetReadOnly sView ro]))
                    (add_selection h sView view)))"

fun open_views ::
  "host \<Rightarrow> nat \<Rightarrow> nat \<Rightarrow> nat \<Rightarrow> pyval list \<Rightarrow> host_call list \<Rightarrow> outcome" where
  "open_views h window i j [] calls = (calls, None)"
| "open_views h window i j (view # rest) calls =
     and_then (open_view h window i j view calls) (open_views h window i (Suc j) rest)"

fun open_groups :: "host \<Rightarrow> nat \<Rightarrow> nat \<Rightarrow> pyval list \<Rightarrow> host_call list \<Rightarrow> outcome" where
  "open_groups h window i [] calls = (calls, None)"
| "open_groups h window i (grp # rest) calls =
     (case getitem_str grp ''views'' of
        Inl e \<Rightarrow> (calls, Some e)
      | Inr vs \<Rightarrow>
          (case py_iter vs of
             Inl e \<Rightarrow> (calls, Some e)
           | Inr views \<Rightarrow>
               and_then (open_views h window i 0 views calls)
                 (open_groups h window (Suc i) rest)))"

text \<open>
  The second loop over the groups: \<^verbatim>\<open>if group['active']:\<close> focuses the view at that
  index among the views the host now lists for group \<open>i\<close>.
\<close>

fun focus_views :: "host \<Rightarrow> nat \<Rightarrow> nat \<Rightarrow> pyval list \<Rightarrow> host_call list \<Rightarrow> outcome" where
  "focus_views h window i [] calls = (calls, None)"
| "focus_views h window i (grp # rest) calls =
     (case getitem_str grp ''active'' of
        Inl e \<Rightarrow> (calls, Some e)
      | Inr a \<Rightarrow>
          if truthy a then
            (case index_list (h_views_in_group h calls i) a of
               Inl e \<Rightarrow> (calls, Some e)
             | Inr sView \<Rightarrow> focus_views h window (Suc i) rest (calls @ [FocusView window sView]))
          else focus_views h window (Suc i) rest calls)"

text \<open>\<^verbatim>\<open>if self.active: window.focus_group(self.active[0])\<close>.\<close>

definition focus_active_group :: "nat \<Rightarrow> pyval \<Rightarrow> host_call list \<Rightarrow> outcome" where
  "focus_active_group window a calls =
     (if truthy a then
        (case first_item a of
           Inl e \<Rightarrow> (calls, Some e)
         | Inr g \<Rightarrow> (calls @ [FocusGroup window g], None))
      else (calls, None))"

text \<open>
  \<^verbatim>\<open>applyToWindow\<close>, started after the calls \<open>calls\<close>: the window is emptied, the
  layout set, the folders and the views opened; then the active views and the active
  group are set; then the status message is shown.
\<close>

definition open_workspace ::
  "host \<Rightarrow> filesystem \<Rightarrow> EasyWorkspace \<Rightarrow> nat \<Rightarrow> host_call list \<Rightarrow> outcome" where
  "open_workspace h fs self window calls =
     (let calls1 = calls @ [WindowCommand window ''close_all'',
                            WindowCommand window ''close_folder_list'',
                            SetLayout window (layout self)]
      in case py_iter (folders self) of
           Inl e \<Rightarrow> (calls1, Some e)
         | Inr fds \<Rightarrow>
             and_then (open_folders h fs window fds calls1)
               (\<lambda>calls2.
                  case py_iter (groups self) of
                    Inl e \<Rightarrow> (calls2, Some e)
                  | Inr gps \<Rightarrow> open_groups h window 0 gps calls2))"

definition set_active_views ::
  "host \<Rightarrow> EasyWorkspace \<Rightarrow> nat \<Rightarrow> host_call list \<Rightarrow> outcome" where
  "set_active_views h self window calls =
     (case py_iter (groups self) of
        Inl e \<Rightarrow> (calls, Some e)
      | Inr gps \<Rightarrow>
          and_then (focus_views h window 0 gps calls)
            (focus_active_group window (active self)))"

definition applyToWindow ::
  "host \<Rightarrow> filesystem \<Rightarrow> EasyWorkspace \<Rightarrow> nat \<Rightarrow> host_call list \<Rightarrow> outcome" where
  "applyToWindow h fs self window calls =
     and_then (open_workspace h fs self window calls)
       (\<lambda>calls3.
          and_then (set_active_views h self window calls3)
            (\<lambda>calls5. (calls5 @ [StatusMessage (''Opened '' @ filename self)], None)))"

section \<open>The commands\<close>

text \<open>
  The state the commands share and act on: the class attributes
  \<^verbatim>\<open>_openWorkspaceFiles\<close> (a dictionary from window identities to paths, in insertion
  order) and \<^verbatim>\<open>_reopenWorkspace\<close>, the file system, the identities of the windows the
  host has open (\<^verbatim>\<open>sublime.windows()\<close>), and the calls made so far.
\<close>

record world =
  openWorkspaceFiles :: "(nat \<times> string) list"
  reopenWorkspace :: string
  disk :: filesystem
  open_windows :: "nat list"
  trace :: "host_call list"

type_synonym result = "world \<times> error option"

definition say :: "host_call \<Rightarrow> world \<Rightarrow> world" where
  "say c w = w\<lparr>trace := trace w @ [c]\<rparr>"

text \<open>\<^verbatim>\<open>d[k] = v\<close> and \<^verbatim>\<open>del d[k]\<close> on a dictionary kept in insertion order.\<close>

fun dict_put :: "nat \<Rightarrow> string \<Rightarrow> (nat \<times> string) list \<Rightarrow> (nat \<times> string) list" where
  "dict_put k v [] = [(k, v)]"
| "dict_put k v (p # ps) = (if fst p = k then (k, v) # ps else p # dict_put k v ps)"

definition dict_del :: "nat \<Rightarrow> (nat \<times> string) list \<Rightarrow> (nat \<times> string) list" where
  "dict_del k d = filter (\<lambda>p. fst p \<noteq> k) d"

text \<open>\<^verbatim>\<open>__garbageCollectOpenWorkspaceFiles\<close>, which is all that \<^verbatim>\<open>EasyWorkspaceCommand.run\<close> does.\<close>

definition garbageCollectOpenWorkspaceFiles :: "world \<Rightarrow> world" where
  "garbageCollectOpenWorkspaceFiles w =
     (let openIds = open_windows w;
          invalidIds = filter (\<lambda>wid. wid \<notin> set openIds) (map fst (openWorkspaceFiles w))
      in w\<lparr>openWorkspaceFiles := fold dict_del invalidIds (openWorkspaceFiles w)\<rparr>)"

text \<open>\<^verbatim>\<open>getAllWorkspaceFiles\<close>: the files below the workspaces directory, hidden ones left out.\<close>

definition getAllWorkspaceFiles :: "host \<Rightarrow> error + string list" where
  "getAllWorkspaceFiles h =
     (case getWorkspacesDir (h_settings h) (h_packages_path h) of
        Inl e \<Rightarrow> Inl e
      | Inr workspacesDir \<Rightarrow>
          Inr (concat
                (map (\<lambda>(root, ds, fls).
                        map (\<lambda>f. path_join (drop (length workspacesDir) root) f)
                          (filter (\<lambda>f. take 1 f \<noteq> ''.'') fls))
                   (h_walk h workspacesDir))))"

text \<open>\<^verbatim>\<open>sublime.yes_no_cancel_dialog(msg)\<close>: the dialog is shown and the user answers.\<close>

definition ask :: "host \<Rightarrow> string \<Rightarrow> world \<Rightarrow> dialog_answer \<times> world" where
  "ask h msg w = (h_dialog h (trace w) msg, say (YesNoCancelDialog msg) w)"

text \<open>
  The prompt before a save: for overwriting when that is asked for and the file exists,
  else for saving a new file when that is asked for; with no prompt the answer is
  \<^verbatim>\<open>DIALOG_YES\<close>.
\<close>

definition confirm_save :: "host \<Rightarrow> kwargs \<Rightarrow> string \<Rightarrow> world \<Rightarrow> dialog_answer \<times> world" where
  "confirm_save h kw fullFilePath w =
     (if kw_promptOverwrite kw \<and> isfile (disk w) fullFilePath then
        ask h (''Overwrite Easy Workspace?'' @ [CHR 0x0A, CHR 0x0A] @ fullFilePath) w
      else if kw_promptSave kw then
        ask h (''Save New Workspace?'' @ [CHR 0x0A, CHR 0x0A] @ fullFilePath) w
      else (DIALOG_YES, w))"

text \<open>
  The second branch of \<^verbatim>\<open>SaveEasyWorkspaceCommand.run\<close>: the window is captured into a
  new workspace, the path is resolved from the given file name or else from the path
  stored for the window, the user is asked when a prompt flag applies, and on
  \<^verbatim>\<open>DIALOG_YES\<close> the file is written and the path stored for the window.
\<close>

definition save_workspace :: "host \<Rightarrow> swindow \<Rightarrow> kwargs \<Rightarrow> world \<Rightarrow> result" where
  "save_workspace h window kw w0 =
     (let w = say (StatusMessage ''Saving workspace...'') w0 in
      case buildFromWindow EasyWorkspace_init window of
        Inl e \<Rightarrow> (w, Some e)
      | Inr ws \<Rightarrow>
          (case (case kw_filename kw of
                   Some f \<Rightarrow> Some f
                 | None \<Rightarrow> map_of (openWorkspaceFiles w) (w_id window)) of
             None \<Rightarrow> (w, Some TypeError)
           | Some name \<Rightarrow>
               (case getWorkspaceFilepath (h_settings h) (h_packages_path h) name of
                  Inl e \<Rightarrow> (w, Some e)
                | Inr fullFilePath \<Rightarrow>
                    (let asked = confirm_save h kw fullFilePath w;
                         w1 = snd asked
                     in if fst asked \<noteq> DIALOG_YES then (say (StatusMessage ''Canceled'') w1, None)
                        else (case saveToFile (disk w1) ws fullFilePath of
                                Inl e \<Rightarrow> (w1, Some e)
                              | Inr saved \<Rightarrow>
                                  (say (StatusMessage (''Saved '' @ fullFilePath))
                                     (w1\<lparr>disk := fst saved,
                                          openWorkspaceFiles :=
                                            dict_put (w_id window) fullFilePath
                                              (openWorkspaceFiles w1)\<rparr>),
                                   None))))))"

text \<open>
  \<^verbatim>\<open>windowEmpty\<close> and \<^verbatim>\<open>openNewWindow\<close>: the views of a window are those of its groups;
  the new window is the first one the host lists that was not open before.
\<close>

definition windowEmpty :: "swindow \<Rightarrow> bool" where
  "windowEmpty window =
     (length (concat (map fst (w_groups window))) = length (w_folders window)
      \<and> length (w_folders window) = 0)"

definition openNewWindow :: "host \<Rightarrow> world \<Rightarrow> (error + nat) \<times> world" where
  "openNewWindow h w =
     (let preWindows = open_windows w;
          w1 = (say (AppCommand ''new_window'') w)\<lparr>open_windows := h_new_window h preWindows\<rparr>
      in case filter (\<lambda>x. x \<notin> set preWindows) (open_windows w1) of
           [] \<Rightarrow> (Inl IndexError, w1)
         | newWindow # _ \<Rightarrow> (Inr newWindow, w1))"

text \<open>
  \<^verbatim>\<open>OpenEasyWorkspaceCommand.run\<close> once a file name is given: the target window is
  chosen; then a new workspace is loaded from the file and applied to it, and the
  path is stored for the target window.
\<close>

definition open_in_window :: "host \<Rightarrow> nat \<Rightarrow> string \<Rightarrow> world \<Rightarrow> result" where
  "open_in_window h targetWindow fname w1 =
     (case getWorkspaceFilepath (h_settings h) (h_packages_path h) fname of
        Inl e \<Rightarrow> (w1, Some e)
      | Inr fullFilePath \<Rightarrow>
          (case loadFromFile (disk w1) EasyWorkspace_init fullFilePath of
             Inl e \<Rightarrow> (w1, Some e)
           | Inr loaded \<Rightarrow>
               (let applied =
                      applyToWindow h (disk w1) (fst loaded) targetWindow
                        (trace w1 @ map StatusMessage (snd loaded));
                    w2 = w1\<lparr>trace := fst applied\<rparr>
                in case snd applied of
                     Some e \<Rightarrow> (w2, Some e)
                   | None \<Rightarrow>
                       (say (StatusMessage (''Opened '' @ fullFilePath))
                          (w2\<lparr>openWorkspaceFiles :=
                                 dict_put targetWindow fullFilePath
                                   (openWorkspaceFiles w2)\<rparr>),
                        None))))"

definition open_workspace_file :: "host \<Rightarrow> swindow \<Rightarrow> string \<Rightarrow> world \<Rightarrow> result" where
  "open_workspace_file h window fname w =
     (let target = (if windowEmpty window then (Inr (w_id window), w) else openNewWindow h w)
      in case fst target of
           Inl e \<Rightarrow> (snd target, Some e)
         | Inr targetWindow \<Rightarrow> open_in_window h targetWindow fname (snd target))"

text \<open>\<^verbatim>\<open>str.replace(old, '')\<close>: every occurrence of \<open>old\<close> is removed, from the left.\<close>

fun remove_all :: "string \<Rightarrow> string \<Rightarrow> string" where
  "remove_all old [] = []"
| "remove_all old (c # cs) =
     (if old \<noteq> [] \<and> take (length old) (c # cs) = old
      then remove_all old (drop (length old) (c # cs))
      else c # remove_all old cs)"

text \<open>
  The \<^verbatim>\<open>run\<close> methods of the six commands, for the command bound to \<open>window\<close>. Each
  starts with \<^verbatim>\<open>super().run\<close>. \<^verbatim>\<open>window.run_command\<close> of one of the plugin's commands
  is recorded and runs that command's \<^verbatim>\<open>run\<close> before it returns. An input panel or a
  quick panel is only shown: its callback is a later event.
\<close>

function run_command :: "host \<Rightarrow> swindow \<Rightarrow> command \<Rightarrow> kwargs \<Rightarrow> world \<Rightarrow> result" where
  "run_command h window save_easy_workspace kw w0 =
     (let w = garbageCollectOpenWorkspaceFiles w0;
          isNewWorkspace = (map_of (openWorkspaceFiles w) (w_id window) = None);
          noFileProvided = (kw_filename kw = None)
      in if isNewWorkspace \<and> noFileProvided then
           run_command h window save_as_easy_workspace kw
             (say (PluginCommand (w_id window) save_as_easy_workspace kw) w)
         else save_workspace h window kw w)"
| "run_command h window save_as_easy_workspace kw w0 =
     (let w = garbageCollectOpenWorkspaceFiles w0 in
      case kw_filename kw of
        None \<Rightarrow> (say (ShowInputPanel (w_id window) ''Save Workspace:'') w, None)
      | Some f \<Rightarrow>
          if f = [] then (say (ShowInputPanel (w_id window) ''Save Workspace:'') w, None)
          else
            (let args = \<lparr>kw_filename = Some f, kw_promptOverwrite = True,
                         kw_promptSave = False\<rparr>
             in run_command h window save_easy_workspace args
                  (say (PluginCommand (w_id window) save_easy_workspace args) w)))"
| "run_command h window open_easy_workspace kw w0 =
     (let w = say (StatusMessage ''Opening workspace...'')
                (garbageCollectOpenWorkspaceFiles w0)
      in case (case kw_filename kw of None \<Rightarrow> [] | Some f \<Rightarrow> f) of
           [] \<Rightarrow>
             (case getAllWorkspaceFiles h of
                Inl e \<Rightarrow> (w, Some e)
              | Inr workspaceFiles \<Rightarrow>
                  (say (ShowQuickPanel (w_id window) workspaceFiles) w, None))
         | c # cs \<Rightarrow> open_workspace_file h window (c # cs) w)"
| "run_command h window delete_easy_workspace kw w0 =
     (let w = garbageCollectOpenWorkspaceFiles w0 in
      case getAllWorkspaceFiles h of
        Inl e \<Rightarrow> (w, Some e)
      | Inr workspaceFiles \<Rightarrow>
          (say (ShowQuickPanel (w_id window) workspaceFiles)
             (say (StatusMessage ''Deleting workspace...'') w), None))"
| "run_command h window show_opened_easy_workspace kw w0 =
     (let w = garbageCollectOpenWorkspaceFiles w0 in
      case getWorkspacesDir (h_settings h) (h_packages_path h) of
        Inl e \<Rightarrow> (w, Some e)
      | Inr workspacesDir \<Rightarrow>
          (let openWorkspaces =
                 map (\<lambda>(k, v). (k, (if k = w_id window then '' * '' else [])
                                      @ remove_all workspacesDir v))
                   (openWorkspaceFiles w)
           in (say (ShowQuickPanel (w_id window) (map snd openWorkspaces)) w, None)))"
| "run_command h window reopen_last_easy_workspace kw w0 =
     (let w = garbageCollectOpenWorkspaceFiles w0 in
      if reopenWorkspace w \<noteq> [] \<and> isfile (disk w) (reopenWorkspace w) then
        (let args = \<lparr>kw_filename = Some (reopenWorkspace w), kw_promptOverwrite = False,
                     kw_promptSave = False\<rparr>
         in run_command h window open_easy_workspace args
              (say (PluginCommand (w_id window) open_easy_workspace args) w))
      else (say (StatusMessage (''Unable to Reopen Workspace '' @ reopenWorkspace w)) w, None))"
  by pat_completeness auto
termination
  by (relation "measure (\<lambda>(h, window, c, kw, w).
        case c of
          save_easy_workspace \<Rightarrow> (if kw_filename kw = None then 2 else 0)
        | save_as_easy_workspace \<Rightarrow> 1
        | reopen_last_easy_workspace \<Rightarrow> 1
        | _ \<Rightarrow> 0)") auto

declare run_command.simps [simp del]



section \<open>What a command changes\<close>

text \<open>
  The host keeps its windows open when it opens a new one. A state is swept from
  another when it differs from it by the removal of the dictionary entries of closed
  windows and by further calls. A command changes a swept state in one of three ways.
  It leaves the dictionary and the file system as they are. Or it has captured its
  window into a workspace built from the constructor's defaults, written it with
  \<^verbatim>\<open>saveToFile\<close> and stored the path for its window, ending with the message that the
  file was saved. Or it has loaded a workspace built from the constructor's defaults
  from a file, applied it to a target window and stored the path for that window,
  ending with the message that the path was opened.
\<close>

definition keeps_open :: "host \<Rightarrow> bool" where
  "keeps_open h = (\<forall>ws. set ws \<subseteq> set (h_new_window h ws))"

definition swept :: "world \<Rightarrow> world \<Rightarrow> bool" where
  "swept w w1 =
     (openWorkspaceFiles w1 =
        filter (\<lambda>p. fst p \<in> set (open_windows w)) (openWorkspaceFiles w)
      \<and> open_windows w1 = open_windows w
      \<and> disk w1 = disk w
      \<and> reopenWorkspace w1 = reopenWorkspace w
      \<and> (\<exists>pre. trace w1 = trace w @ pre))"

definition changes :: "host \<Rightarrow> swindow \<Rightarrow> world \<Rightarrow> result \<Rightarrow> bool" where
  "changes h window w1 r =
     ((\<exists>new. trace (fst r) = trace w1 @ new)
      \<and> reopenWorkspace (fst r) = reopenWorkspace w1
      \<and> (keeps_open h \<longrightarrow> set (open_windows w1) \<subseteq> set (open_windows (fst r)))
      \<and> ((openWorkspaceFiles (fst r) = openWorkspaceFiles w1 \<and> disk (fst r) = disk w1)
         \<or> (\<exists>p ws. openWorkspaceFiles (fst r) =
                      dict_put (w_id window) p (openWorkspaceFiles w1)
                 \<and> open_windows (fst r) = open_windows w1
                 \<and> buildFromWindow EasyWorkspace_init window = Inr ws
                 \<and> saveToFile (disk w1) ws p = Inr (disk (fst r), ws\<lparr>filename := p\<rparr>)
                 \<and> snd r = None
                 \<and> last (trace (fst r)) = StatusMessage (''Saved '' @ p))
         \<or> (\<exists>t p ws msgs pre post.
                 (w_id window \<in> set (open_windows w1) \<longrightarrow> t \<in> set (open_windows (fst r)))
                 \<and> openWorkspaceFiles (fst r) = dict_put t p (openWorkspaceFiles w1)
                 \<and> disk (fst r) = disk w1
                 \<and> snd r = None
                 \<and> loadFromFile (disk w1) EasyWorkspace_init p = Inr (ws, msgs)
                 \<and> applyToWindow h (disk w1) ws t pre = (post, None)
                 \<and> trace (fst r) = post @ [StatusMessage (''Opened '' @ p)])))"

section \<open>What applying a workspace focuses\<close>

text \<open>
  The two kinds of focus call, the groups for which the second loop asks for a focus
  (those whose \<^verbatim>\<open>active\<close> entry is true as a condition, paired with their index), and
  what the focus call made for such a group is: \<^verbatim>\<open>focus_view\<close> of the view at the
  stored index among the views the host lists for the group. A step is quiet when it
  adds no focus call.
\<close>

definition is_focus_view :: "host_call \<Rightarrow> bool" where
  "is_focus_view c = (case c of FocusView _ _ \<Rightarrow> True | _ \<Rightarrow> False)"

definition is_focus_group :: "host_call \<Rightarrow> bool" where
  "is_focus_group c = (case c of FocusGroup _ _ \<Rightarrow> True | _ \<Rightarrow> False)"

definition wants_focus :: "pyval \<Rightarrow> bool" where
  "wants_focus grp = (case getitem_str grp ''active'' of Inl _ \<Rightarrow> False | Inr a \<Rightarrow> truthy a)"

fun focus_targets :: "nat \<Rightarrow> pyval list \<Rightarrow> (nat \<times> pyval) list" where
  "focus_targets i [] = []"
| "focus_targets i (grp # rest) =
     (if wants_focus grp then (i, grp) # focus_targets (Suc i) rest
      else focus_targets (Suc i) rest)"

definition focused :: "host \<Rightarrow> nat \<Rightarrow> nat \<times> pyval \<Rightarrow> host_call \<Rightarrow> bool" where
  "focused h window t c =
     (\<exists>a calls sView. getitem_str (snd t) ''active'' = Inr a \<and> truthy a
        \<and> index_list (h_views_in_group h calls (fst t)) a = Inr sView
        \<and> c = FocusView window sView)"

definition quiet :: "host_call list \<Rightarrow> outcome \<Rightarrow> bool" where
  "quiet calls r =
     (\<exists>new. fst r = calls @ new
        \<and> list_all (\<lambda>c. \<not> is_focus_view c \<and> \<not> is_focus_group c) new)"

section \<open>A window with an unsaved buffer\<close>

text \<open>
  One group holding an unsaved buffer (no file, no selection region) followed by a view
  of the file \<^verbatim>\<open>/p/a.txt\<close>, which has the focus.
\<close>

definition unsaved_view :: sview where
  "unsaved_view =
     \<lparr> view_id = 1, file_name = None, visible_region = (0, 0), sel = [],
       is_read_only = False \<rparr>"

definition saved_view :: sview where
  "saved_view =
     \<lparr> view_id = 2, file_name = Some ''/p/a.txt'', visible_region = (0, 120),
       sel = [(7, 7)], is_read_only = False \<rparr>"

definition example_window :: swindow where
  "example_window =
     \<lparr> w_id = 1,
       w_layout = layout EasyWorkspace_init,
       w_folders = [''/p''],
       w_active_view = Some saved_view,
       w_get_view_index =
         (\<lambda>v. case v of None \<Rightarrow> Inl AttributeError
                | Some u \<Rightarrow> if view_id u = 2 then Inr (0, 1) else Inr (0, 0)),
       w_groups = [([unsaved_view, saved_view], Some saved_view)] \<rparr>"

definition example_capture :: EasyWorkspace where
  "example_capture =
     \<lparr> layout = layout EasyWorkspace_init,
       folders = PList [PStr ''/p''],
       active = PTuple [PInt 0, PInt 1],
       groups = PList [PDict [(''active'', PInt 1),
                              (''views'', PList [view_dict ''/p/a.txt'' (0, 120) (7, 7) False])]],
       filename = [] \<rparr>"

section \<open>A host and two stored workspaces\<close>

text \<open>
  A host with default settings and no project data, whose \<^verbatim>\<open>open_file\<close> hands out the
  number of calls made so far as the handle and whose groups hold the views placed in
  them by \<^verbatim>\<open>set_view_index\<close>. A workspace with one file in one group, as it is loaded
  from its document, and one with two groups of two files each, the second group and
  its second view active.
\<close>

fun views_placed :: "host_call list \<Rightarrow> nat \<Rightarrow> nat list" where
  "views_placed [] i = []"
| "views_placed (c # cs) i =
     (case c of
        SetViewIndex w v g j \<Rightarrow> if g = i then v # views_placed cs i else views_placed cs i
      | _ \<Rightarrow> views_placed cs i)"

definition example_host :: host where
  "example_host =
     \<lparr> h_settings = Map.empty,
       h_packages_path = ''/pk'',
       h_project_data = (\<lambda>calls. PNone),
       h_open_file = (\<lambda>calls f. length calls),
       h_views_in_group = views_placed,
       h_dialog = (\<lambda>calls msg. DIALOG_YES),
       h_walk = (\<lambda>d. []),
       h_new_window = (\<lambda>ws. ws @ [Suc (fold max ws 0)]) \<rparr>"

definition stored_view :: "string \<Rightarrow> pyval" where
  "stored_view f =
     PDict [(''file'', PStr f), (''visible'', PList [PInt 0, PInt 120]),
            (''selection'', PList [PInt 7, PInt 7]), (''read_only'', PBool False)]"

definition one_file_workspace :: EasyWorkspace where
  "one_file_workspace =
     \<lparr> layout = layout EasyWorkspace_init,
       folders = PList [],
       active = PList [PInt 0, PInt 0],
       groups = PList [PDict [(''active'', PInt 0),
                              (''views'', PList [stored_view ''/p/a.txt''])]],
       filename = ''/ws/a.ws'' \<rparr>"

definition two_group_workspace :: EasyWorkspace where
  "two_group_workspace =
     \<lparr> layout = layout EasyWorkspace_init,
       folders = PList [],
       active = PList [PInt 1, PInt 1],
       groups = PList [PDict [(''active'', PInt 0),
                              (''views'', PList [stored_view ''/p/a.txt'',
                                                 stored_view ''/p/b.txt''])],
                       PDict [(''active'', PInt 1),
                              (''views'', PList [stored_view ''/p/c.txt'',
                                                 stored_view ''/p/d.txt''])]],
       filename = ''/ws/two.ws'' \<rparr>"

section \<open>A state with a stale entry\<close>

text \<open>
  Window 1 is open and has a workspace file; window 7 was closed and its entry is still
  in the dictionary. The second host has autosave switched on for \<^verbatim>\<open>close_all\<close>.
\<close>

definition example_world :: world where
  "example_world =
     \<lparr> openWorkspaceFiles = [(7, ''/pk/EasyWorkspace/workspaces/old.ws''),
                              (1, ''/pk/EasyWorkspace/workspaces/proj.ws'')],
       reopenWorkspace = [],
       disk = \<lparr>dirs = {}, files = Map.empty\<rparr>,
       open_windows = [1],
       trace = [] \<rparr>"


section \<open>Loading\<close>

lemma decode_encode: "decode_value (encode_value v) = as_lists v"
  by (induction v) (auto simp: map_idI)

section \<open>Capture\<close>

lemma list_index_eq:
  "list_index vs a =
     (if list_ex (\<lambda>v. same_view v a) vs then Inr (position_of a vs) else Inl ValueError)"
  by (induction vs) (auto simp: position_of_def)

lemma active_index_eq:
  "active_index vs a =
     (if vs = [] \<or> list_ex (\<lambda>v. same_view v a) vs then Inr (position_of a vs)
      else Inl ValueError)"
  by (cases vs) (auto simp: active_index_def list_index_eq position_of_def)

lemma fill_views_eq:
  "fill_views vs acc =
     (if list_all (\<lambda>v. \<not> backed v \<or> sel v \<noteq> []) vs
      then Inr (acc @ map view_record (filter backed vs)) else Inl IndexError)"
proof (induction vs arbitrary: acc)
  case Nil
  show ?case by simp
next
  case (Cons v vs)
  show ?case
  proof (cases "backed v")
    case False
    then have "file_name v = None \<or> file_name v = Some []"
      by (auto simp: backed_def split: option.splits)
    with False show ?thesis
      using Cons.IH [of acc] by auto
  next
    case True
    then obtain f where f: "file_name v = Some f" "f \<noteq> []"
      by (auto simp: backed_def split: option.splits)
    show ?thesis
    proof (cases "sel v")
      case Nil
      with True f show ?thesis by simp
    next
      case (Cons s ss)
      with True f show ?thesis
        using Cons.IH [of "acc @ [view_dict f (visible_region v) s (is_read_only v)]"]
        by (simp add: view_record_def)
    qed
  qed
qed

lemma group_dict_eq:
  "group_dict vs a = (if capturable (vs, a) then Inr (group_record (vs, a))
                      else if vs = [] \<or> list_ex (\<lambda>v. same_view v a) vs then Inl IndexError
                      else Inl ValueError)"
  by (simp add: group_dict_def active_index_eq fill_views_eq capturable_def group_record_def)

lemma capture_groups_ok:
  "list_all capturable gps \<Longrightarrow>
   capture_groups gps (PList xs) = Inr (PList (xs @ map group_record gps))"
proof (induction gps arbitrary: xs)
  case Nil
  show ?case by simp
next
  case (Cons g gps)
  obtain vs a where g: "g = (vs, a)" by (cases g)
  from Cons.prems have "capturable (vs, a)" and "list_all capturable gps"
    by (simp_all add: g)
  then show ?case
    using Cons.IH [of "xs @ [group_record (vs, a)]"] by (simp add: g group_dict_eq)
qed

lemma capture_groups_fails:
  "\<not> list_all capturable gps \<Longrightarrow> \<exists>e. capture_groups gps gs = Inl e"
proof (induction gps arbitrary: gs)
  case Nil
  then show ?case by simp
next
  case (Cons g gps)
  obtain vs a where g: "g = (vs, a)" by (cases g)
  show ?case
  proof (cases "capturable (vs, a)")
    case False
    then show ?thesis by (simp add: g group_dict_eq)
  next
    case True
    with Cons.prems have rest: "\<not> list_all capturable gps" by (simp add: g)
    show ?thesis
    proof (cases "py_append gs (group_record (vs, a))")
      case (Inl e)
      with True show ?thesis by (simp add: g group_dict_eq)
    next
      case (Inr gs')
      with True Cons.IH [OF rest, of gs'] show ?thesis by (simp add: g group_dict_eq)
    qed
  qed
qed

lemma buildFromWindow_ok:
  assumes "w_get_view_index window (w_active_view window) = Inr gi"
    and "groups self = PList gs0"
    and "list_all capturable (w_groups window)"
  shows "buildFromWindow self window =
           Inr (self\<lparr>layout := w_layout window,
                      folders := PList (map PStr (w_folders window)),
                      active := PTuple [PInt (fst gi), PInt (snd gi)],
                      groups := PList (gs0 @ map group_record (w_groups window))\<rparr>)"
  using assms by (simp add: buildFromWindow_def capture_groups_ok)

lemma buildFromWindow_fails:
  assumes "\<not> list_all capturable (w_groups window)"
  shows "\<exists>e. buildFromWindow self window = Inl e"
proof (cases "w_get_view_index window (w_active_view window)")
  case (Inl e)
  then show ?thesis by (simp add: buildFromWindow_def)
next
  case (Inr gi)
  obtain e where "capture_groups (w_groups window) (groups self) = Inl e"
    using capture_groups_fails [OF assms] by blast
  with Inr show ?thesis by (simp add: buildFromWindow_def)
qed


text \<open>
  C2. \<^verbatim>\<open>buildFromWindow\<close> succeeds exactly when the host answers \<^verbatim>\<open>get_view_index\<close> and
  every group can be captured, which asks nothing of the views without a file; the
  groups it then appends hold, under \<^verbatim>\<open>views\<close>, the records of the views backed by a
  file, in order, and of no other view.
\<close>

theorem buildFromWindow_backed_only:
  assumes "groups self = PList gs0"
  shows "((\<exists>ws. buildFromWindow self window = Inr ws) \<longleftrightarrow>
            (\<exists>gi. w_get_view_index window (w_active_view window) = Inr gi)
            \<and> list_all capturable (w_groups window))
         \<and> (\<forall>ws. buildFromWindow self window = Inr ws \<longrightarrow>
               groups ws = PList (gs0 @ map group_record (w_groups window)))"
proof (cases "w_get_view_index window (w_active_view window)")
  case (Inl e)
  then show ?thesis by (simp add: buildFromWindow_def)
next
  case (Inr gi)
  show ?thesis
  proof (cases "list_all capturable (w_groups window)")
    case True
    show ?thesis
      using buildFromWindow_ok [OF Inr assms True] Inr True by simp
  next
    case False
    obtain e where "buildFromWindow self window = Inl e"
      using buildFromWindow_fails [OF False] by blast
    with False show ?thesis by simp
  qed
qed

theorem buildFromWindow_backed_only_witness:
  "groups EasyWorkspace_init = PList []
   \<and> buildFromWindow EasyWorkspace_init example_window = Inr example_capture
   \<and> list_all capturable (w_groups example_window)
   \<and> groups example_capture = PList ([] @ map group_record (w_groups example_window))"
proof -
  have g: "groups EasyWorkspace_init = PList []"
    by (simp add: EasyWorkspace_init_def)
  have b: "buildFromWindow EasyWorkspace_init example_window = Inr example_capture"
    by (simp add: buildFromWindow_def example_window_def example_capture_def
        EasyWorkspace_init_def group_dict_def active_index_def same_view_def
        saved_view_def unsaved_view_def)
  from buildFromWindow_backed_only [OF g, of example_window] b g show ?thesis
    by auto
qed

text \<open>
  C4. In the window with an unsaved buffer before the focused file view, the capture
  stores \<open>1\<close> under \<^verbatim>\<open>active\<close>, the position of the focused view among all views of
  the group, while the list stored under \<^verbatim>\<open>views\<close> has one record and the focused
  view is at position \<open>0\<close> of it. Applied to a window whose group then lists that one
  view, the stored index is out of range and \<^verbatim>\<open>applyToWindow\<close> ends with
  \<^verbatim>\<open>IndexError\<close>.
\<close>

theorem buildFromWindow_active_index_off:
  "buildFromWindow EasyWorkspace_init example_window = Inr example_capture
   \<and> groups example_capture =
       PList [PDict [(''active'', PInt 1),
                     (''views'', PList [view_record saved_view])]]
   \<and> filter backed (fst (hd (w_groups example_window))) = [saved_view]
   \<and> position_of (Some saved_view) (filter backed (fst (hd (w_groups example_window)))) = 0
   \<and> snd (applyToWindow example_host \<lparr>dirs = {}, files = Map.empty\<rparr> example_capture 1 [])
       = Some IndexError"
  by (simp add: buildFromWindow_def example_window_def example_capture_def
      EasyWorkspace_init_def group_dict_def active_index_def same_view_def
      saved_view_def unsaved_view_def view_record_def backed_def position_of_def
      applyToWindow_def open_workspace_def set_active_views_def and_then_def
      open_view_def show_region_def add_selection_def focus_active_group_def
      example_host_def view_dict_def settings_get_def int_index_def
      openFolderInWindow_def isdir_def)

text \<open>
  C6. The \<open>active\<close> field is the empty tuple in a freshly constructed workspace; after
  \<^verbatim>\<open>buildFromWindow\<close> it is the tuple of the two integers the host's \<^verbatim>\<open>get_view_index\<close>
  returned (group index, view index); after \<^verbatim>\<open>buildFromJSON\<close> it is the value the
  document holds under \<^verbatim>\<open>active\<close>, which for a document encoded from a workspace with
  the tuple \<open>(g, i)\<close> is the list \<open>[g, i]\<close>.
\<close>

theorem active_field_shape:
  "active EasyWorkspace_init = PTuple []
   \<and> (buildFromWindow self window = Inr ws \<longrightarrow>
        (\<exists>g i. w_get_view_index window (w_active_view window) = Inr (g, i)
               \<and> active ws = PTuple [PInt g, PInt i]))
   \<and> (buildFromJSON self' js = Inr ws' \<longrightarrow> getitem_str js ''active'' = Inr (active ws'))
   \<and> (active saved = PTuple [PInt g', PInt i'] \<longrightarrow>
        (\<exists>loaded. buildFromJSON self' (decode_value (encode_value (vars saved))) = Inr loaded
                  \<and> active loaded = PList [PInt g', PInt i']))"
proof -
  have fresh: "active EasyWorkspace_init = PTuple []"
    by (simp add: EasyWorkspace_init_def)
  have captured: "\<exists>g i. w_get_view_index window (w_active_view window) = Inr (g, i)
                    \<and> active ws = PTuple [PInt g, PInt i]"
    if "buildFromWindow self window = Inr ws"
    using that by (auto simp: buildFromWindow_def Let_def split: sum.splits)
  have read: "getitem_str js ''active'' = Inr (active ws')"
    if "buildFromJSON self' js = Inr ws'"
    using that by (auto simp: buildFromJSON_def split: sum.splits)
  have reloaded: "\<exists>loaded. buildFromJSON self' (decode_value (encode_value (vars saved))) = Inr loaded
                    \<and> active loaded = PList [PInt g', PInt i']"
    if "active saved = PTuple [PInt g', PInt i']"
    using that by (simp add: decode_encode vars_def buildFromJSON_def)
  from fresh captured read reloaded show ?thesis by blast
qed

theorem active_field_shape_witness:
  "buildFromWindow EasyWorkspace_init example_window = Inr example_capture
   \<and> w_get_view_index example_window (w_active_view example_window) = Inr (0, 1)
   \<and> active example_capture = PTuple [PInt 0, PInt 1]
   \<and> buildFromJSON EasyWorkspace_init (decode_value (encode_value (vars example_capture)))
       = Inr (EasyWorkspace_init\<lparr>layout := as_lists (layout example_capture),
                                 folders := as_lists (folders example_capture),
                                 active := PList [PInt 0, PInt 1],
                                 groups := as_lists (groups example_capture)\<rparr>)
   \<and> getitem_str (decode_value (encode_value (vars example_capture))) ''active''
       = Inr (PList [PInt 0, PInt 1])"
proof -
  have b: "buildFromWindow EasyWorkspace_init example_window = Inr example_capture"
    by (simp add: buildFromWindow_def example_window_def example_capture_def
        EasyWorkspace_init_def group_dict_def active_index_def same_view_def
        saved_view_def unsaved_view_def)
  have a: "active example_capture = PTuple [PInt 0, PInt 1]"
    by (simp add: example_capture_def)
  have j: "buildFromJSON EasyWorkspace_init (decode_value (encode_value (vars example_capture)))
       = Inr (EasyWorkspace_init\<lparr>layout := as_lists (layout example_capture),
                                 folders := as_lists (folders example_capture),
                                 active := PList [PInt 0, PInt 1],
                                 groups := as_lists (groups example_capture)\<rparr>)"
    by (simp add: decode_encode vars_def buildFromJSON_def a)
  from active_field_shape [of EasyWorkspace_init example_window example_capture
      EasyWorkspace_init "decode_value (encode_value (vars example_capture))"
      "EasyWorkspace_init\<lparr>layout := as_lists (layout example_capture),
                                 folders := as_lists (folders example_capture),
                                 active := PList [PInt 0, PInt 1],
                                 groups := as_lists (groups example_capture)\<rparr>"
      example_capture 0 1] b a j
  show ?thesis by auto
qed

text \<open>
  C6, counterexample: the \<open>active\<close> field of a freshly constructed workspace is the
  tuple with no component.
\<close>

theorem fresh_active_empty: "active EasyWorkspace_init = PTuple []"
  by (simp add: EasyWorkspace_init_def)

section \<open>Saving and loading\<close>

lemma saveToFile_stores:
  assumes "saveToFile fs self fname = Inr (fs', self')"
  shows "\<not> isdir fs' fname" and "files fs' fname = Some (encode_value (vars self))"
    and "self' = self\<lparr>filename := fname\<rparr>"
  using assms
  by (auto simp: saveToFile_def Let_def open_write_def makedirs_def isdir_def
      split: sum.splits if_splits)

text \<open>
  C1. When \<^verbatim>\<open>saveToFile\<close> has written a workspace, \<^verbatim>\<open>loadFromFile\<close> of that file on a
  fresh workspace succeeds and yields the saved \<open>layout\<close>, \<open>folders\<close>, \<open>active\<close> and
  \<open>groups\<close> with every tuple in them replaced by the list of the same elements, and
  the file's name as \<open>filename\<close>.
\<close>

theorem save_load_roundtrip:
  assumes "saveToFile fs self fname = Inr (fs', self')"
  shows "loadFromFile fs' EasyWorkspace_init fname =
           Inr (\<lparr> layout = as_lists (layout self),
                   folders = as_lists (folders self),
                   active = as_lists (active self),
                   groups = as_lists (groups self),
                   filename = fname \<rparr>, [])"
  using saveToFile_stores [OF assms]
  by (simp add: loadFromFile_def open_read_def decode_encode vars_def buildFromJSON_def
      EasyWorkspace_init_def)

theorem save_load_roundtrip_witness:
  "saveToFile \<lparr>dirs = {}, files = Map.empty\<rparr> example_capture ''/ws/a.ws'' =
     Inr (\<lparr>dirs = {''/ws''}, files = [''/ws/a.ws'' \<mapsto> encode_value (vars example_capture)]\<rparr>,
          example_capture\<lparr>filename := ''/ws/a.ws''\<rparr>)
   \<and> loadFromFile
        \<lparr>dirs = {''/ws''}, files = [''/ws/a.ws'' \<mapsto> encode_value (vars example_capture)]\<rparr>
        EasyWorkspace_init ''/ws/a.ws'' =
       Inr (\<lparr> layout = as_lists (layout example_capture),
               folders = as_lists (folders example_capture),
               active = as_lists (active example_capture),
               groups = as_lists (groups example_capture),
               filename = ''/ws/a.ws'' \<rparr>, [])"
proof -
  have s: "saveToFile \<lparr>dirs = {}, files = Map.empty\<rparr> example_capture ''/ws/a.ws'' =
     Inr (\<lparr>dirs = {''/ws''}, files = [''/ws/a.ws'' \<mapsto> encode_value (vars example_capture)]\<rparr>,
          example_capture\<lparr>filename := ''/ws/a.ws''\<rparr>)"
    by (simp add: saveToFile_def dirname_def rstrip_def isdir_def isfile_def makedirs_def
        open_write_def)
  from save_load_roundtrip [OF s] s show ?thesis by simp
qed

text \<open>
  C1, counterexample: the workspace captured from the example window is saved and
  loaded back; the loaded \<open>active\<close> is the list \<open>[0, 1]\<close>, the saved one the tuple
  \<open>(0, 1)\<close>, and a list is not equal to a tuple.
\<close>

theorem save_load_not_equal:
  "saveToFile \<lparr>dirs = {}, files = Map.empty\<rparr> example_capture ''/ws/a.ws'' =
     Inr (\<lparr>dirs = {''/ws''}, files = [''/ws/a.ws'' \<mapsto> encode_value (vars example_capture)]\<rparr>,
          example_capture\<lparr>filename := ''/ws/a.ws''\<rparr>)
   \<and> map_sum id (active \<circ> fst)
        (loadFromFile
          \<lparr>dirs = {''/ws''}, files = [''/ws/a.ws'' \<mapsto> encode_value (vars example_capture)]\<rparr>
          EasyWorkspace_init ''/ws/a.ws'') = Inr (PList [PInt 0, PInt 1])
   \<and> active example_capture = PTuple [PInt 0, PInt 1]
   \<and> PList [PInt 0, PInt 1] \<noteq> PTuple [PInt 0, PInt 1]"
  by (simp add: saveToFile_def dirname_def rstrip_def isdir_def isfile_def makedirs_def
      open_write_def loadFromFile_def open_read_def vars_def buildFromJSON_def
      example_capture_def EasyWorkspace_init_def view_dict_def)

section \<open>Missing files\<close>



section \<open>Workspace paths\<close>

lemma splitext_scan_append:
  "fst (splitext_scan p i d) @ snd (splitext_scan p i d) = p"
proof (induction p i d rule: splitext_scan.induct)
  case (1 p i d)
  then show ?case
    by (subst (1 2) splitext_scan.simps) auto
qed

lemma splitext_append: "fst (splitext p) @ snd (splitext p) = p"
  by (simp add: splitext_def Let_def splitext_scan_append)

lemma rfind_bounds: "-1 \<le> rfind c xs \<and> rfind c xs < int (length xs)"
  by (induction xs) (auto simp: Let_def)

lemma rfind_notin: "c \<notin> set xs \<Longrightarrow> rfind c xs = -1"
  by (induction xs) (auto simp: Let_def)

lemma rfind_in: "c \<in> set xs \<Longrightarrow> 0 \<le> rfind c xs"
  by (induction xs) (auto simp: Let_def)

lemma rfind_append:
  "rfind c (xs @ ys) = (if c \<in> set ys then int (length xs) + rfind c ys else rfind c xs)"
proof (induction xs)
  case Nil
  then show ?case by (simp add: rfind_notin)
next
  case (Cons x xs)
  then show ?case
    using rfind_in [of c ys] rfind_bounds [of c ys]
    by (auto simp: Let_def)
qed

lemma splitext_scan_eq:
  assumes "0 \<le> i" and "d \<le> int (length p)"
  shows "splitext_scan p i d =
           (if list_ex (\<lambda>c. c \<noteq> CHR ''.'') (take (nat (d - i)) (drop (nat i) p))
            then (take (nat d) p, drop (nat d) p) else (p, []))"
  using assms
proof (induction p i d rule: splitext_scan.induct)
  case (1 p i d)
  show ?case
  proof (cases "i < d")
    case False
    then show ?thesis by (subst splitext_scan.simps) simp
  next
    case True
    with "1.prems" have lt: "nat i < length p" by linarith
    then have dr: "drop (nat i) p = p ! nat i # drop (nat (i + 1)) p"
      using "1.prems" by (simp add: Cons_nth_drop_Suc nat_add_distrib)
    have tk: "nat (d - i) = Suc (nat (d - (i + 1)))" using True by linarith
    show ?thesis
    proof (cases "p ! nat i = CHR ''.''")
      case True
      with \<open>i < d\<close> "1.IH" "1.prems" dr tk show ?thesis
        by (subst splitext_scan.simps) simp
    next
      case False
      with \<open>i < d\<close> dr tk show ?thesis
        by (subst splitext_scan.simps) simp
    qed
  qed
qed

lemma splitext_with_extension:
  assumes "CHR ''.'' \<notin> set e" and "CHR ''/'' \<notin> set e"
    and "list_ex (\<lambda>c. c \<noteq> CHR ''.'') (drop (nat (rfind CHR ''/'' f + 1)) f)"
  shows "splitext (f @ CHR ''.'' # e) = (f, CHR ''.'' # e)"
proof -
  have dot: "rfind CHR ''.'' (f @ CHR ''.'' # e) = int (length f)"
    using assms(1) by (simp add: rfind_append rfind_notin Let_def)
  have sep: "rfind CHR ''/'' (f @ CHR ''.'' # e) = rfind CHR ''/'' f"
    using assms(2) by (simp add: rfind_append)
  have b: "-1 \<le> rfind CHR ''/'' f" "rfind CHR ''/'' f < int (length f)"
    using rfind_bounds [of "CHR ''/''" f] by simp_all
  have "splitext (f @ CHR ''.'' # e) =
          splitext_scan (f @ CHR ''.'' # e) (rfind CHR ''/'' f + 1) (int (length f))"
    using b by (simp add: splitext_def dot sep)
  also have "\<dots> = (f, CHR ''.'' # e)"
    using b assms(3) by (subst splitext_scan_eq) (auto simp: nat_diff_distrib)
  finally show ?thesis .
qed

lemma getWorkspacesDir_ends_with_sep:
  "getWorkspacesDir st pp = Inr d \<Longrightarrow> ends_with_sep d"
  by (auto simp: getWorkspacesDir_def path_join_def ends_with_sep_def split: pyval.splits)

lemma path_join_relative:
  "ends_with_sep d \<Longrightarrow> \<not> starts_with_sep n \<Longrightarrow> path_join d n = d @ n"
  by (simp add: path_join_def)

lemma getWorkspaceFilepath_eq:
  assumes "getWorkspacesDir st pp = Inr d"
    and "settings_get st ''easy_ws_file_extension'' (PStr ''.ws'') = PStr ext"
  shows "getWorkspaceFilepath st pp f =
           Inr (path_join d (if snd (splitext f) = [] then f @ ext else f))"
proof (cases "snd (splitext f) = []")
  case True
  with splitext_append [of f] have "fst (splitext f) = f" by simp
  with True assms show ?thesis by (simp add: getWorkspaceFilepath_def)
next
  case False
  with assms splitext_append [of f] show ?thesis by (simp add: getWorkspaceFilepath_def)
qed

text \<open>
  C10. With a workspaces directory \<open>d\<close> and a configured extension \<open>ext\<close>,
  \<^verbatim>\<open>getWorkspaceFilepath\<close> joins \<open>d\<close> with the name \<open>n\<close>, which is the file name
  followed by \<open>ext\<close> when \<^verbatim>\<open>splitext\<close> finds no extension in it and the file name
  unchanged otherwise. For a relative \<open>n\<close> the result is \<open>d\<close> followed by \<open>n\<close>; an
  absolute \<open>n\<close> is returned as it is. Applied to a name \<open>n\<close> that has an extension, it
  yields the same path again; with the extension \<^verbatim>\<open>.ws\<close>, \<open>n\<close> has one whenever the last
  component of the file name has a character other than a dot.
\<close>

theorem getWorkspaceFilepath_shape:
  assumes "getWorkspacesDir st pp = Inr d"
    and "settings_get st ''easy_ws_file_extension'' (PStr ''.ws'') = PStr ext"
    and "n = (if snd (splitext f) = [] then f @ ext else f)"
  shows "getWorkspaceFilepath st pp f = Inr (path_join d n)
         \<and> (\<not> starts_with_sep n \<longrightarrow> path_join d n = d @ n)
         \<and> (starts_with_sep n \<longrightarrow> path_join d n = n)
         \<and> (snd (splitext n) \<noteq> [] \<longrightarrow> getWorkspaceFilepath st pp n = Inr (path_join d n))
         \<and> (ext = ''.ws''
              \<and> list_ex (\<lambda>c. c \<noteq> CHR ''.'') (drop (nat (rfind CHR ''/'' f + 1)) f)
              \<longrightarrow> snd (splitext n) \<noteq> [])"
proof -
  have 1: "getWorkspaceFilepath st pp f = Inr (path_join d n)"
    using getWorkspaceFilepath_eq [OF assms(1,2)] assms(3) by simp
  have 2: "path_join d n = d @ n" if "\<not> starts_with_sep n"
    using path_join_relative [OF getWorkspacesDir_ends_with_sep [OF assms(1)] that] .
  have 3: "path_join d n = n" if "starts_with_sep n"
    using that by (simp add: path_join_def)
  have 4: "getWorkspaceFilepath st pp n = Inr (path_join d n)" if "snd (splitext n) \<noteq> []"
    using getWorkspaceFilepath_eq [OF assms(1,2), of n] that by simp
  have 5: "snd (splitext n) \<noteq> []"
    if "ext = ''.ws''"
      and "list_ex (\<lambda>c. c \<noteq> CHR ''.'') (drop (nat (rfind CHR ''/'' f + 1)) f)"
  proof (cases "snd (splitext f) = []")
    case True
    have "splitext (f @ CHR ''.'' # ''ws'') = (f, CHR ''.'' # ''ws'')"
      using that(2) by (intro splitext_with_extension) simp_all
    with True that(1) assms(3) show ?thesis by simp
  next
    case False
    with assms(3) show ?thesis by simp
  qed
  from 1 2 3 4 5 show ?thesis by blast
qed

theorem getWorkspaceFilepath_shape_witness:
  "getWorkspacesDir Map.empty ''/pk'' = Inr ''/pk/EasyWorkspace/workspaces/''
   \<and> settings_get Map.empty ''easy_ws_file_extension'' (PStr ''.ws'') = PStr ''.ws''
   \<and> splitext ''sub/proj'' = (''sub/proj'', [])
   \<and> getWorkspaceFilepath Map.empty ''/pk'' ''sub/proj''
       = Inr ''/pk/EasyWorkspace/workspaces/sub/proj.ws''
   \<and> splitext ''sub/proj.ws'' = (''sub/proj'', ''.ws'')
   \<and> getWorkspaceFilepath Map.empty ''/pk'' ''sub/proj.ws''
       = Inr ''/pk/EasyWorkspace/workspaces/sub/proj.ws''"
proof -
  have d: "getWorkspacesDir Map.empty ''/pk'' = Inr ''/pk/EasyWorkspace/workspaces/''"
    by (simp add: getWorkspacesDir_def settings_get_def path_join_def starts_with_sep_def
        ends_with_sep_def)
  have e: "settings_get Map.empty ''easy_ws_file_extension'' (PStr ''.ws'') = PStr ''.ws''"
    by (simp add: settings_get_def)
  have s1: "splitext ''sub/proj'' = (''sub/proj'', [])"
    by (simp add: splitext_def)
  have s2: "splitext ''sub/proj.ws'' = (''sub/proj'', ''.ws'')"
    by (simp add: splitext_def splitext_scan.simps)
  have n: "''sub/proj.ws'' = (if snd (splitext ''sub/proj'') = [] then ''sub/proj'' @ ''.ws''
                               else ''sub/proj'')"
    by (simp add: s1)
  from getWorkspaceFilepath_shape [OF d e n] d e s1 s2 show ?thesis
    by (simp add: starts_with_sep_def)
qed

text \<open>
  C10, counterexample: an absolute file name comes back unchanged, outside the
  workspaces directory.
\<close>

theorem getWorkspaceFilepath_absolute:
  "getWorkspacesDir Map.empty ''/pk'' = Inr ''/pk/EasyWorkspace/workspaces/''
   \<and> getWorkspaceFilepath Map.empty ''/pk'' ''/tmp/x.ws'' = Inr ''/tmp/x.ws''
   \<and> take (length ''/pk/EasyWorkspace/workspaces/'') ''/tmp/x.ws''
       \<noteq> ''/pk/EasyWorkspace/workspaces/''"
  by (simp add: getWorkspaceFilepath_def getWorkspacesDir_def settings_get_def path_join_def
      starts_with_sep_def ends_with_sep_def splitext_def splitext_scan.simps)

section \<open>Focus after applying a workspace\<close>

lemma quiet_refl: "quiet calls (calls, r)"
  by (simp add: quiet_def)

lemma quiet_and_then:
  assumes "quiet calls r" and "\<And>c. quiet c (k c)"
  shows "quiet calls (and_then r k)"
proof (cases "snd r")
  case None
  from assms(1) obtain n1 where n1: "fst r = calls @ n1"
    "list_all (\<lambda>c. \<not> is_focus_view c \<and> \<not> is_focus_group c) n1"
    by (auto simp: quiet_def)
  from assms(2) [of "fst r"] obtain n2 where n2: "fst (k (fst r)) = fst r @ n2"
    "list_all (\<lambda>c. \<not> is_focus_view c \<and> \<not> is_focus_group c) n2"
    by (auto simp: quiet_def)
  from None n1 n2 show ?thesis
    by (auto simp: quiet_def and_then_def intro!: exI [of _ "n1 @ n2"])
next
  case (Some e)
  with assms(1) show ?thesis by (simp add: and_then_def)
qed

lemma quiet_trans:
  assumes "quiet calls (c1, r1)" and "quiet c1 r"
  shows "quiet calls r"
  using assms by (auto simp: quiet_def)

lemma quiet_add_folder: "quiet calls (add_folder h window path calls)"
  by (auto simp: add_folder_def Let_def quiet_def is_focus_view_def is_focus_group_def
      split: sum.splits bool.splits pyval.splits)

lemma quiet_openFolderInWindow: "quiet calls (openFolderInWindow h fs window folder calls)"
  by (auto simp: openFolderInWindow_def quiet_refl quiet_add_folder split: pyval.splits)

lemma quiet_open_folders: "quiet calls (open_folders h fs window fds calls)"
  by (induction fds arbitrary: calls)
     (auto simp: quiet_refl intro!: quiet_and_then quiet_openFolderInWindow)

lemma quiet_show_region: "quiet calls (show_region h sView view calls)"
  by (auto simp: show_region_def quiet_def is_focus_view_def is_focus_group_def
      split: sum.splits)

lemma quiet_add_selection: "quiet calls (add_selection h sView view calls)"
  by (auto simp: add_selection_def quiet_def is_focus_view_def is_focus_group_def
      split: sum.splits)

lemma quiet_open_view: "quiet calls (open_view h window i j view calls)"
proof (cases "getitem_str view ''file''")
  case (Inl e)
  then show ?thesis by (simp add: open_view_def quiet_refl)
next
  case (Inr path)
  let ?sv = "h_open_file h calls path"
  let ?c1 = "calls @ [OpenFile window path, SetViewIndex window ?sv i j]"
  have q1: "quiet calls (?c1, r)" for r
    by (simp add: quiet_def is_focus_view_def is_focus_group_def)
  show ?thesis
  proof (cases "py_get view ''read_only'' (PBool False)")
    case (Inl e)
    with Inr q1 show ?thesis by (simp add: open_view_def Let_def)
  next
    case ro: (Inr ro)
    have q2: "quiet calls (?c1 @ [SetReadOnly ?sv ro], None)"
      by (simp add: quiet_def is_focus_view_def is_focus_group_def)
    have "quiet (?c1 @ [SetReadOnly ?sv ro])
            (and_then (show_region h ?sv view (?c1 @ [SetReadOnly ?sv ro]))
               (add_selection h ?sv view))"
      by (intro quiet_and_then quiet_show_region quiet_add_selection)
    with q2 have "quiet calls
            (and_then (show_region h ?sv view (?c1 @ [SetReadOnly ?sv ro]))
               (add_selection h ?sv view))"
      by (rule quiet_trans)
    with Inr ro show ?thesis by (simp add: open_view_def Let_def)
  qed
qed

lemma quiet_open_views: "quiet calls (open_views h window i j views calls)"
  by (induction views arbitrary: j calls)
     (auto simp: quiet_refl intro!: quiet_and_then quiet_open_view)

lemma quiet_open_groups: "quiet calls (open_groups h window i gps calls)"
  by (induction gps arbitrary: i calls)
     (auto simp: quiet_refl split: sum.splits intro!: quiet_and_then quiet_open_views)

lemma quiet_open_workspace: "quiet calls (open_workspace h fs self window calls)"
proof -
  let ?c1 = "calls @ [WindowCommand window ''close_all'',
                      WindowCommand window ''close_folder_list'',
                      SetLayout window (layout self)]"
  have q1: "quiet calls (?c1, r)" for r
    by (simp add: quiet_def is_focus_view_def is_focus_group_def)
  show ?thesis
  proof (cases "py_iter (folders self)")
    case (Inl e)
    with q1 show ?thesis by (simp add: open_workspace_def Let_def)
  next
    case (Inr fds)
    have "quiet ?c1 (and_then (open_folders h fs window fds ?c1)
               (\<lambda>calls2.
                  case py_iter (groups self) of
                    Inl e \<Rightarrow> (calls2, Some e)
                  | Inr gps \<Rightarrow> open_groups h window 0 gps calls2))"
      by (intro quiet_and_then quiet_open_folders)
         (auto simp: quiet_refl quiet_open_groups split: sum.splits)
    then have "quiet calls (and_then (open_folders h fs window fds ?c1)
               (\<lambda>calls2.
                  case py_iter (groups self) of
                    Inl e \<Rightarrow> (calls2, Some e)
                  | Inr gps \<Rightarrow> open_groups h window 0 gps calls2))"
      using q1 [of None] by (rule quiet_trans [rotated])
    with Inr show ?thesis
      by (simp add: open_workspace_def Let_def)
  qed
qed

lemma focus_views_calls:
  "\<exists>new reached rest.
     fst (focus_views h window i gps calls) = calls @ new
     \<and> focus_targets i gps = reached @ rest
     \<and> list_all2 (focused h window) reached new
     \<and> (snd (focus_views h window i gps calls) = None \<longrightarrow> rest = [])"
proof (induction gps arbitrary: i calls)
  case Nil
  show ?case by simp
next
  case (Cons grp gps)
  show ?case
  proof (cases "getitem_str grp ''active''")
    case (Inl e)
    then have "focus_views h window i (grp # gps) calls = (calls, Some e)" by simp
    then show ?thesis by simp
  next
    case (Inr a)
    show ?thesis
    proof (cases "truthy a")
      case False
      with Inr have 1: "focus_views h window i (grp # gps) calls
                          = focus_views h window (Suc i) gps calls"
        and 2: "focus_targets i (grp # gps) = focus_targets (Suc i) gps"
        by (simp_all add: wants_focus_def)
      show ?thesis unfolding 1 2 by (rule Cons.IH)
    next
      case True
      with Inr have 2: "focus_targets i (grp # gps) = (i, grp) # focus_targets (Suc i) gps"
        by (simp add: wants_focus_def)
      show ?thesis
      proof (cases "index_list (h_views_in_group h calls i) a")
        case (Inl e)
        with Inr True have "focus_views h window i (grp # gps) calls = (calls, Some e)"
          by simp
        then show ?thesis by simp
      next
        case v: (Inr sView)
        with Inr True have 1: "focus_views h window i (grp # gps) calls
            = focus_views h window (Suc i) gps (calls @ [FocusView window sView])"
          by simp
        from Cons.IH [of "Suc i" "calls @ [FocusView window sView]"]
        obtain new reached rest where
          n: "fst (focus_views h window (Suc i) gps (calls @ [FocusView window sView]))
                = (calls @ [FocusView window sView]) @ new"
          and t: "focus_targets (Suc i) gps = reached @ rest"
          and l: "list_all2 (focused h window) reached new"
          and r: "snd (focus_views h window (Suc i) gps (calls @ [FocusView window sView])) = None
                  \<longrightarrow> rest = []"
          by (elim exE conjE) (rule that)
        have f: "focused h window (i, grp) (FocusView window sView)"
          unfolding focused_def using Inr True v by auto
        have a: "fst (focus_views h window i (grp # gps) calls)
                = calls @ (FocusView window sView # new)"
          unfolding 1 n by simp
        have b: "focus_targets i (grp # gps) = ((i, grp) # reached) @ rest"
          unfolding 2 t by simp
        have c: "list_all2 (focused h window) ((i, grp) # reached)
                         (FocusView window sView # new)"
          using f l by simp
        have d: "snd (focus_views h window i (grp # gps) calls) = None \<longrightarrow> rest = []"
          unfolding 1 by (rule r)
        show ?thesis
          by (rule exI [of _ "FocusView window sView # new"],
              rule exI [of _ "(i, grp) # reached"], rule exI [of _ rest])
             (intro conjI a b c d)
      qed
    qed
  qed
qed

lemma focused_is_focus_view:
  "list_all2 (focused h window) reached new \<Longrightarrow>
   filter is_focus_view new = new \<and> filter is_focus_group new = []"
  by (induction rule: list_all2_induct)
     (auto simp: focused_def is_focus_view_def is_focus_group_def)

lemma quiet_filter:
  "list_all (\<lambda>c. \<not> is_focus_view c \<and> \<not> is_focus_group c) new \<Longrightarrow>
   filter is_focus_view new = [] \<and> filter is_focus_group new = []"
  by (induction new) auto

lemma focus_active_group_calls:
  "focus_active_group window a calls =
     (if truthy a then
        (case first_item a of Inl e \<Rightarrow> (calls, Some e)
         | Inr g \<Rightarrow> (calls @ [FocusGroup window g], None))
      else (calls, None))"
  by (simp add: focus_active_group_def)

lemma set_active_views_calls:
  "\<exists>new reached rest.
     fst (set_active_views h self window calls) = calls @ new
     \<and> focus_targets 0 (case py_iter (groups self) of Inl _ \<Rightarrow> [] | Inr gps \<Rightarrow> gps)
         = reached @ rest
     \<and> list_all2 (focused h window) reached (filter is_focus_view new)
     \<and> (snd (set_active_views h self window calls) = None \<longrightarrow> rest = [])
     \<and> (snd (set_active_views h self window calls) = None \<and> truthy (active self) \<longrightarrow>
          (\<exists>g. first_item (active self) = Inr g
               \<and> filter is_focus_group new = [FocusGroup window g]))
     \<and> (snd (set_active_views h self window calls) \<noteq> None \<or> \<not> truthy (active self) \<longrightarrow>
          filter is_focus_group new = [])"
proof (cases "py_iter (groups self)")
  case (Inl e)
  then have "set_active_views h self window calls = (calls, Some e)"
    by (simp add: set_active_views_def)
  with Inl show ?thesis by simp
next
  case (Inr gps)
  obtain new reached rest where
    n: "fst (focus_views h window 0 gps calls) = calls @ new"
    and t: "focus_targets 0 gps = reached @ rest"
    and l: "list_all2 (focused h window) reached new"
    and r: "snd (focus_views h window 0 gps calls) = None \<longrightarrow> rest = []"
    using focus_views_calls [of h window 0 gps calls] by (elim exE conjE) (rule that)
  note fl = focused_is_focus_view [OF l]
  have sav: "set_active_views h self window calls =
               and_then (focus_views h window 0 gps calls)
                 (focus_active_group window (active self))"
    using Inr by (simp add: set_active_views_def)
  show ?thesis
  proof (cases "snd (focus_views h window 0 gps calls)")
    case (Some e)
    then have res: "set_active_views h self window calls = focus_views h window 0 gps calls"
      by (simp add: sav and_then_def)
    show ?thesis
      by (rule exI [of _ new], rule exI [of _ reached], rule exI [of _ rest])
         (simp add: res n t l fl Some Inr)
  next
    case None
    with r have rest: "rest = []" by simp
    have res: "set_active_views h self window calls =
                 focus_active_group window (active self) (calls @ new)"
      using None n by (simp add: sav and_then_def)
    show ?thesis
    proof (cases "truthy (active self)")
      case False
      then have "set_active_views h self window calls = (calls @ new, None)"
        by (simp add: res focus_active_group_calls)
      then show ?thesis
        by (intro exI [of _ new] exI [of _ reached] exI [of _ rest])
           (simp add: t l fl False Inr rest)
    next
      case True
      show ?thesis
      proof (cases "first_item (active self)")
        case (Inl e)
        with True have "set_active_views h self window calls = (calls @ new, Some e)"
          by (simp add: res focus_active_group_calls)
        then show ?thesis
          by (intro exI [of _ new] exI [of _ reached] exI [of _ rest])
             (simp add: t l fl Inr rest)
      next
        case g: (Inr g)
        with True have "set_active_views h self window calls
                          = (calls @ new @ [FocusGroup window g], None)"
          by (simp add: res focus_active_group_calls)
        then show ?thesis
          by (intro exI [of _ "new @ [FocusGroup window g]"] exI [of _ reached]
               exI [of _ rest])
             (simp add: t l fl Inr rest g True is_focus_view_def is_focus_group_def)
      qed
    qed
  qed
qed

lemma focus_calls_of_applyToWindow:
  "\<exists>new reached rest.
     fst (applyToWindow h fs self window calls) = calls @ new
     \<and> focus_targets 0 (case py_iter (groups self) of Inl _ \<Rightarrow> [] | Inr gps \<Rightarrow> gps)
         = reached @ rest
     \<and> list_all2 (focused h window) reached (filter is_focus_view new)
     \<and> (snd (applyToWindow h fs self window calls) = None \<longrightarrow> rest = [])
     \<and> (snd (applyToWindow h fs self window calls) = None \<and> truthy (active self) \<longrightarrow>
          (\<exists>g. first_item (active self) = Inr g
               \<and> filter is_focus_group new = [FocusGroup window g]))
     \<and> (snd (applyToWindow h fs self window calls) \<noteq> None \<or> \<not> truthy (active self) \<longrightarrow>
          filter is_focus_group new = [])"
proof -
  let ?r1 = "open_workspace h fs self window calls"
  let ?targets = "focus_targets 0 (case py_iter (groups self) of Inl _ \<Rightarrow> [] | Inr gps \<Rightarrow> gps)"
  obtain n1 where n1: "fst ?r1 = calls @ n1"
    and q1: "list_all (\<lambda>c. \<not> is_focus_view c \<and> \<not> is_focus_group c) n1"
    using quiet_open_workspace [of calls h fs self window]
    unfolding quiet_def by (elim exE conjE) (rule that)
  note f1 = quiet_filter [OF q1]
  show ?thesis
  proof (cases "snd ?r1")
    case (Some e)
    then have res: "applyToWindow h fs self window calls = ?r1"
      by (simp add: applyToWindow_def and_then_def)
    show ?thesis
      by (rule exI [of _ n1], rule exI [of _ "[]"], rule exI [of _ ?targets])
         (simp add: res n1 f1 Some)
  next
    case None
    let ?r2 = "set_active_views h self window (calls @ n1)"
    have res: "applyToWindow h fs self window calls =
                 and_then ?r2
                   (\<lambda>calls5. (calls5 @ [StatusMessage (''Opened '' @ filename self)], None))"
      by (simp add: applyToWindow_def and_then_def [of ?r1] None n1)
    obtain n2 reached rest where
      n2: "fst ?r2 = (calls @ n1) @ n2"
      and t: "?targets = reached @ rest"
      and l: "list_all2 (focused h window) reached (filter is_focus_view n2)"
      and r: "snd ?r2 = None \<longrightarrow> rest = []"
      and g: "snd ?r2 = None \<and> truthy (active self) \<longrightarrow>
              (\<exists>g. first_item (active self) = Inr g
                   \<and> filter is_focus_group n2 = [FocusGroup window g])"
      and ng: "snd ?r2 \<noteq> None \<or> \<not> truthy (active self) \<longrightarrow> filter is_focus_group n2 = []"
      using set_active_views_calls [of h self window "calls @ n1"]
      by (elim exE conjE) (rule that)
    show ?thesis
    proof (cases "snd ?r2")
      case (Some e)
      then have res2: "applyToWindow h fs self window calls = ?r2"
        by (simp add: res and_then_def)
      show ?thesis
        apply (rule exI [of _ "n1 @ n2"], rule exI [of _ reached], rule exI [of _ rest])
        using t l ng Some by (simp add: res2 n2 f1)
    next
      case None
      then have res2: "applyToWindow h fs self window calls =
          (calls @ n1 @ n2 @ [StatusMessage (''Opened '' @ filename self)], None)"
        using n2 by (simp add: res and_then_def)
      show ?thesis
        apply (rule exI [of _ "n1 @ n2 @ [StatusMessage (''Opened '' @ filename self)]"],
               rule exI [of _ reached], rule exI [of _ rest])
        using t l r g ng None
        by (simp add: res2 f1 is_focus_view_def is_focus_group_def)
    qed
  qed
qed

lemma focus_targets_none:
  "list_all (\<lambda>grp. \<not> wants_focus grp) gps \<Longrightarrow> focus_targets i gps = []"
  by (induction gps arbitrary: i) auto

text \<open>
  C9. The calls \<^verbatim>\<open>applyToWindow\<close> adds hold one \<^verbatim>\<open>focus_view\<close> for each group whose
  \<^verbatim>\<open>active\<close> entry is true as a condition (a nonzero index), in the order of the groups
  and up to the point where an exception ends the run; each is the focus of the view at
  the stored index among the views the host lists for that group. A group whose
  \<^verbatim>\<open>active\<close> is \<open>0\<close> gets none. \<^verbatim>\<open>focus_group\<close> is called exactly when the run reaches
  the end and the workspace's \<open>active\<close> is true as a condition (not empty); it is
  called with the first component, whether that is zero or not.
\<close>

theorem applyToWindow_focus:
  "\<exists>new reached rest.
     fst (applyToWindow h fs self window calls) = calls @ new
     \<and> focus_targets 0 (case py_iter (groups self) of Inl _ \<Rightarrow> [] | Inr gps \<Rightarrow> gps)
         = reached @ rest
     \<and> list_all2 (focused h window) reached (filter is_focus_view new)
     \<and> (snd (applyToWindow h fs self window calls) = None \<longrightarrow> rest = [])
     \<and> (list_all (\<lambda>grp. getitem_str grp ''active'' = Inr (PInt 0))
           (case py_iter (groups self) of Inl _ \<Rightarrow> [] | Inr gps \<Rightarrow> gps) \<longrightarrow>
          filter is_focus_view new = [])
     \<and> (snd (applyToWindow h fs self window calls) = None \<and> truthy (active self) \<longrightarrow>
          (\<exists>g. first_item (active self) = Inr g
               \<and> filter is_focus_group new = [FocusGroup window g]))
     \<and> (snd (applyToWindow h fs self window calls) \<noteq> None \<or> \<not> truthy (active self) \<longrightarrow>
          filter is_focus_group new = [])"
proof -
  let ?gps = "case py_iter (groups self) of Inl _ \<Rightarrow> [] | Inr gps \<Rightarrow> gps"
  obtain new reached rest where
    n: "fst (applyToWindow h fs self window calls) = calls @ new"
    and t: "focus_targets 0 ?gps = reached @ rest"
    and l: "list_all2 (focused h window) reached (filter is_focus_view new)"
    and r: "snd (applyToWindow h fs self window calls) = None \<longrightarrow> rest = []"
    and g: "snd (applyToWindow h fs self window calls) = None \<and> truthy (active self) \<longrightarrow>
          (\<exists>g. first_item (active self) = Inr g
               \<and> filter is_focus_group new = [FocusGroup window g])"
    and ng: "snd (applyToWindow h fs self window calls) \<noteq> None \<or> \<not> truthy (active self) \<longrightarrow>
          filter is_focus_group new = []"
    using focus_calls_of_applyToWindow [of h fs self window calls]
    by (elim exE conjE) (rule that)
  have z: "filter is_focus_view new = []"
    if "list_all (\<lambda>grp. getitem_str grp ''active'' = Inr (PInt 0)) ?gps"
  proof -
    have "list_all (\<lambda>grp. \<not> wants_focus grp) ?gps"
      using that by (simp add: list_all_iff wants_focus_def)
    then have "focus_targets 0 ?gps = []" by (rule focus_targets_none)
    with t have "reached = []" by simp
    with l show ?thesis by simp
  qed
  then have z': "list_all (\<lambda>grp. getitem_str grp ''active'' = Inr (PInt 0)) ?gps \<longrightarrow>
                 filter is_focus_view new = []"
    by (rule impI)
  show ?thesis
    by (rule exI [of _ new], rule exI [of _ reached], rule exI [of _ rest])
       (intro conjI n t l r z' g ng)
qed

theorem applyToWindow_focus_witness:
  "applyToWindow example_host \<lparr>dirs = {}, files = Map.empty\<rparr> two_group_workspace 1 [] =
     ([WindowCommand 1 ''close_all'', WindowCommand 1 ''close_folder_list'',
       SetLayout 1 (layout EasyWorkspace_init),
       OpenFile 1 (PStr ''/p/a.txt''), SetViewIndex 1 3 0 0, SetReadOnly 3 (PBool False),
       OpenFile 1 (PStr ''/p/b.txt''), SetViewIndex 1 6 0 1, SetReadOnly 6 (PBool False),
       OpenFile 1 (PStr ''/p/c.txt''), SetViewIndex 1 9 1 0, SetReadOnly 9 (PBool False),
       OpenFile 1 (PStr ''/p/d.txt''), SetViewIndex 1 12 1 1, SetReadOnly 12 (PBool False),
       FocusView 1 12, FocusGroup 1 (PInt 1), StatusMessage ''Opened /ws/two.ws''], None)
   \<and> truthy (active two_group_workspace)
   \<and> first_item (active two_group_workspace) = Inr (PInt 1)
   \<and> (\<exists>new. fst (applyToWindow example_host \<lparr>dirs = {}, files = Map.empty\<rparr>
                    two_group_workspace 1 []) = [] @ new
            \<and> filter is_focus_group new = [FocusGroup 1 (PInt 1)])"
proof -
  have e: "applyToWindow example_host \<lparr>dirs = {}, files = Map.empty\<rparr> two_group_workspace 1 [] =
     ([WindowCommand 1 ''close_all'', WindowCommand 1 ''close_folder_list'',
       SetLayout 1 (layout EasyWorkspace_init),
       OpenFile 1 (PStr ''/p/a.txt''), SetViewIndex 1 3 0 0, SetReadOnly 3 (PBool False),
       OpenFile 1 (PStr ''/p/b.txt''), SetViewIndex 1 6 0 1, SetReadOnly 6 (PBool False),
       OpenFile 1 (PStr ''/p/c.txt''), SetViewIndex 1 9 1 0, SetReadOnly 9 (PBool False),
       OpenFile 1 (PStr ''/p/d.txt''), SetViewIndex 1 12 1 1, SetReadOnly 12 (PBool False),
       FocusView 1 12, FocusGroup 1 (PInt 1), StatusMessage ''Opened /ws/two.ws''], None)"
    by (simp add: applyToWindow_def open_workspace_def set_active_views_def and_then_def
        open_view_def show_region_def add_selection_def focus_active_group_def
        example_host_def two_group_workspace_def stored_view_def settings_get_def
        int_index_def)
  have a: "truthy (active two_group_workspace)"
    and f: "first_item (active two_group_workspace) = Inr (PInt 1)"
    by (simp_all add: two_group_workspace_def int_index_def)
  from applyToWindow_focus [of example_host "\<lparr>dirs = {}, files = Map.empty\<rparr>"
      two_group_workspace 1 "[]"] e a f
  show ?thesis by auto
qed

text \<open>
  C9, counterexample: for the workspace with one file, whose \<open>active\<close> is \<open>[0, 0]\<close>,
  \<^verbatim>\<open>focus_group(0)\<close> is called although the first component is zero.
\<close>

theorem applyToWindow_focuses_group_zero:
  "applyToWindow example_host \<lparr>dirs = {}, files = Map.empty\<rparr> one_file_workspace 1 [] =
     ([WindowCommand 1 ''close_all'', WindowCommand 1 ''close_folder_list'',
       SetLayout 1 (layout EasyWorkspace_init),
       OpenFile 1 (PStr ''/p/a.txt''), SetViewIndex 1 3 0 0, SetReadOnly 3 (PBool False),
       FocusGroup 1 (PInt 0), StatusMessage ''Opened /ws/a.ws''], None)
   \<and> active one_file_workspace = PList [PInt 0, PInt 0]"
  by (simp add: applyToWindow_def open_workspace_def set_active_views_def and_then_def
      open_view_def show_region_def add_selection_def focus_active_group_def
      example_host_def one_file_workspace_def stored_view_def settings_get_def
      int_index_def)

section \<open>The commands and the shared dictionary\<close>

lemma fold_dict_del: "fold dict_del ids d = filter (\<lambda>p. fst p \<notin> set ids) d"
proof (induction ids arbitrary: d)
  case Nil
  show ?case by simp
next
  case (Cons k ids)
  have "fold dict_del (k # ids) d = filter (\<lambda>p. fst p \<notin> set ids) (dict_del k d)"
    by (simp add: Cons.IH)
  also have "\<dots> = filter (\<lambda>p. fst p \<notin> set (k # ids)) d"
    by (simp add: dict_del_def conj_commute)
  finally show ?case .
qed

lemma garbageCollect_eq:
  "garbageCollectOpenWorkspaceFiles w =
     w\<lparr>openWorkspaceFiles :=
         filter (\<lambda>p. fst p \<in> set (open_windows w)) (openWorkspaceFiles w)\<rparr>"
proof -
  have "filter (\<lambda>p. fst p \<notin> set (filter (\<lambda>wid. wid \<notin> set (open_windows w))
                                   (map fst (openWorkspaceFiles w))))
          (openWorkspaceFiles w)
        = filter (\<lambda>p. fst p \<in> set (open_windows w)) (openWorkspaceFiles w)"
    by (rule filter_cong) auto
  then show ?thesis
    by (simp add: garbageCollectOpenWorkspaceFiles_def fold_dict_del)
qed

lemma set_dict_put: "set (dict_put k v d) \<subseteq> insert (k, v) (set d)"
  by (induction d) auto

lemma keys_dict_put: "fst ` set (dict_put k v d) = insert k (fst ` set d)"
  by (induction d) auto

lemma map_of_dict_put: "map_of (dict_put k v d) = (map_of d)(k \<mapsto> v)"
  by (induction d) (auto simp: fun_eq_iff)

lemma swept_garbageCollect: "swept w (garbageCollectOpenWorkspaceFiles w)"
  by (simp add: swept_def garbageCollect_eq)

lemma swept_say: "swept w w1 \<Longrightarrow> swept w (say c w1)"
  by (auto simp: swept_def say_def)

lemma swept_trans: "swept w w1 \<Longrightarrow> swept w1 w2 \<Longrightarrow> swept w w2"
  by (auto simp: swept_def)

lemma changes_same:
  "openWorkspaceFiles w' = openWorkspaceFiles w1 \<Longrightarrow> disk w' = disk w1 \<Longrightarrow>
   open_windows w' = open_windows w1 \<Longrightarrow> reopenWorkspace w' = reopenWorkspace w1 \<Longrightarrow>
   trace w' = trace w1 @ new \<Longrightarrow> changes h window w1 (w', r)"
  by (simp add: changes_def)

lemma changes_say: "changes h window v (say c v, r)"
  by (rule changes_same [of _ _ "[c]"]) (simp_all add: say_def)

lemma changes_say2: "changes h window v (say c (say d v), r)"
  by (rule changes_same [of _ _ "[d, c]"]) (simp_all add: say_def)

lemma changes_after_say:
  assumes "changes h window (say c w1) r"
  shows "changes h window w1 r"
  using assms by (auto simp: changes_def say_def)

lemma changes_save_workspace_said:
  "changes h window (say (StatusMessage ''Saving workspace...'') w)
     (save_workspace h window kw w)"
proof -
  let ?w = "say (StatusMessage ''Saving workspace...'') w"
  show ?thesis
  proof (cases "buildFromWindow EasyWorkspace_init window")
    case (Inl e)
    then show ?thesis
      by (simp add: save_workspace_def Let_def changes_same [of _ _ "[]"])
  next
    case (Inr ws)
    show ?thesis
    proof (cases "case kw_filename kw of Some f \<Rightarrow> Some f
                  | None \<Rightarrow> map_of (openWorkspaceFiles ?w) (w_id window)")
      case None
      with Inr show ?thesis
        by (simp add: save_workspace_def Let_def changes_same [of _ _ "[]"])
    next
      case (Some name)
      show ?thesis
      proof (cases "getWorkspaceFilepath (h_settings h) (h_packages_path h) name")
        case (Inl e)
        with Inr Some show ?thesis
          by (simp add: save_workspace_def Let_def changes_same [of _ _ "[]"])
      next
        case p: (Inr path)
        let ?asked = "confirm_save h kw path ?w"
        have a: "openWorkspaceFiles (snd ?asked) = openWorkspaceFiles ?w"
          "disk (snd ?asked) = disk ?w" "open_windows (snd ?asked) = open_windows ?w"
          "reopenWorkspace (snd ?asked) = reopenWorkspace ?w"
          "\<exists>new. trace (snd ?asked) = trace ?w @ new"
          by (auto simp: confirm_save_def ask_def say_def)
        then obtain n1 where n1: "trace (snd ?asked) = trace ?w @ n1" by blast
        have res: "save_workspace h window kw w =
            (if fst ?asked \<noteq> DIALOG_YES then (say (StatusMessage ''Canceled'') (snd ?asked), None)
             else (case saveToFile (disk (snd ?asked)) ws path of
                     Inl e \<Rightarrow> (snd ?asked, Some e)
                   | Inr saved \<Rightarrow>
                       (say (StatusMessage (''Saved '' @ path))
                          ((snd ?asked)\<lparr>disk := fst saved,
                               openWorkspaceFiles :=
                                 dict_put (w_id window) path
                                   (openWorkspaceFiles (snd ?asked))\<rparr>),
                        None)))"
          using Inr Some p by (simp add: save_workspace_def Let_def)
        show ?thesis
        proof (cases "fst ?asked \<noteq> DIALOG_YES")
          case True
          then show ?thesis
            unfolding res using a n1
            by (simp add: changes_same [of _ _ "n1 @ [StatusMessage ''Canceled'']"] say_def)
        next
          case False
          show ?thesis
          proof (cases "saveToFile (disk (snd ?asked)) ws path")
            case (Inl e)
            with False show ?thesis
              unfolding res using a n1 by (simp add: changes_same [of _ _ n1])
          next
            case s: (Inr saved)
            obtain fs' ws' where sv: "saved = (fs', ws')" by (cases saved)
            from saveToFile_stores(3) [OF s [unfolded sv]]
            have "ws' = ws\<lparr>filename := path\<rparr>" .
            with False s sv a n1 Inr show ?thesis
              unfolding res changes_def by (auto simp: say_def)
          qed
        qed
      qed
    qed
  qed
qed

lemma changes_save_workspace: "changes h window w (save_workspace h window kw w)"
  using changes_save_workspace_said by (rule changes_after_say)



lemma applyToWindow_extends:
  "\<exists>new. fst (applyToWindow h fs self window calls) = calls @ new"
  using focus_calls_of_applyToWindow [of h fs self window calls] by (elim exE conjE) (rule exI)

lemma changes_open_in_window:
  assumes m: "openWorkspaceFiles w1 = openWorkspaceFiles w"
    and d: "disk w1 = disk w"
    and ro: "reopenWorkspace w1 = reopenWorkspace w"
    and tr: "trace w1 = trace w @ before"
    and ow: "keeps_open h \<longrightarrow> set (open_windows w) \<subseteq> set (open_windows w1)"
    and t: "w_id window \<in> set (open_windows w) \<longrightarrow> t \<in> set (open_windows w1)"
  shows "changes h window w (open_in_window h t fname w1)"
proof (cases "getWorkspaceFilepath (h_settings h) (h_packages_path h) fname")
  case (Inl e)
  with assms show ?thesis by (simp add: open_in_window_def changes_def)
next
  case p: (Inr path)
  show ?thesis
  proof (cases "loadFromFile (disk w1) EasyWorkspace_init path")
    case (Inl e)
    with p assms show ?thesis by (simp add: open_in_window_def changes_def)
  next
    case l: (Inr loaded)
    let ?pre = "trace w1 @ map StatusMessage (snd loaded)"
    let ?applied = "applyToWindow h (disk w1) (fst loaded) t ?pre"
    obtain new where new: "fst ?applied = ?pre @ new"
      using applyToWindow_extends by blast
    show ?thesis
    proof (cases "snd ?applied")
      case (Some e)
      with p l new assms show ?thesis
        by (simp add: open_in_window_def Let_def changes_def)
    next
      case None
      then have ap: "applyToWindow h (disk w) (fst loaded) t ?pre = (fst ?applied, None)"
        using d by (simp add: prod_eq_iff)
      have ld: "loadFromFile (disk w) EasyWorkspace_init path = Inr (fst loaded, snd loaded)"
        using l d by simp
      have res: "open_in_window h t fname w1 =
          (say (StatusMessage (''Opened '' @ path))
             (w1\<lparr>trace := fst ?applied,
                  openWorkspaceFiles := dict_put t path (openWorkspaceFiles w1)\<rparr>), None)"
        using p l None by (simp add: open_in_window_def Let_def)
      have alt: "\<exists>t' p ws msgs pre post.
                 (w_id window \<in> set (open_windows w) \<longrightarrow>
                    t' \<in> set (open_windows (fst (open_in_window h t fname w1))))
                 \<and> openWorkspaceFiles (fst (open_in_window h t fname w1))
                     = dict_put t' p (openWorkspaceFiles w)
                 \<and> disk (fst (open_in_window h t fname w1)) = disk w
                 \<and> snd (open_in_window h t fname w1) = None
                 \<and> loadFromFile (disk w) EasyWorkspace_init p = Inr (ws, msgs)
                 \<and> applyToWindow h (disk w) ws t' pre = (post, None)
                 \<and> trace (fst (open_in_window h t fname w1))
                     = post @ [StatusMessage (''Opened '' @ p)]"
        apply (rule exI [of _ t], rule exI [of _ path], rule exI [of _ "fst loaded"],
               rule exI [of _ "snd loaded"], rule exI [of _ ?pre],
               rule exI [of _ "fst ?applied"])
        using t m d ld ap by (simp add: res say_def)
      have "trace (fst (open_in_window h t fname w1))
              = trace w @ (before @ map StatusMessage (snd loaded) @ new
                            @ [StatusMessage (''Opened '' @ path)])"
        unfolding res say_def by (simp add: new) (simp add: tr)
      then have "\<exists>n. trace (fst (open_in_window h t fname w1)) = trace w @ n" ..
      moreover have "reopenWorkspace (fst (open_in_window h t fname w1)) = reopenWorkspace w"
        by (simp add: res say_def ro)
      moreover have "keeps_open h \<longrightarrow>
          set (open_windows w) \<subseteq> set (open_windows (fst (open_in_window h t fname w1)))"
        using ow by (simp add: res say_def)
      ultimately show ?thesis
        unfolding changes_def using alt by (intro conjI disjI2)
    qed
  qed
qed

lemma changes_open_workspace_file:
  "changes h window w (open_workspace_file h window fname w)"
proof (cases "windowEmpty window")
  case True
  have "changes h window w (open_in_window h (w_id window) fname w)"
    by (rule changes_open_in_window [where before = "[]"]) simp_all
  with True show ?thesis by (simp add: open_workspace_file_def)
next
  case False
  let ?w1 = "(say (AppCommand ''new_window'') w)\<lparr>open_windows := h_new_window h (open_windows w)\<rparr>"
  show ?thesis
  proof (cases "filter (\<lambda>x. x \<notin> set (open_windows w)) (h_new_window h (open_windows w))")
    case Nil
    with False show ?thesis
      by (simp add: open_workspace_file_def openNewWindow_def Let_def changes_def say_def
          keeps_open_def)
  next
    case (Cons nw rest)
    then have "nw \<in> set (filter (\<lambda>x. x \<notin> set (open_windows w)) (h_new_window h (open_windows w)))"
      by simp
    then have nw: "nw \<in> set (open_windows ?w1)" by simp
    have sub: "keeps_open h \<longrightarrow> set (open_windows w) \<subseteq> set (open_windows ?w1)"
      by (simp add: keeps_open_def)
    have "changes h window w (open_in_window h nw fname ?w1)"
      using sub nw
      by (intro changes_open_in_window [where before = "[AppCommand ''new_window'']"])
         (simp_all add: say_def)
    with False Cons show ?thesis
      by (simp add: open_workspace_file_def openNewWindow_def Let_def)
  qed
qed

lemma run_command_changes:
  "\<exists>w1. swept w w1 \<and> changes h window w1 (run_command h window c kw w)"
proof (induction h window c kw w rule: run_command.induct)
  case (1 h window kw w0)
  let ?w = "garbageCollectOpenWorkspaceFiles w0"
  have sw: "swept w0 ?w" by (rule swept_garbageCollect)
  show ?case
  proof (cases "map_of (openWorkspaceFiles ?w) (w_id window) = None \<and> kw_filename kw = None")
    case True
    let ?w' = "say (PluginCommand (w_id window) save_as_easy_workspace kw) ?w"
    from True "1.IH" [OF refl refl refl]
    obtain w1 where w1: "swept ?w' w1"
      "changes h window w1 (run_command h window save_as_easy_workspace kw ?w')"
      by auto
    have "swept w0 ?w'" using sw by (rule swept_say)
    with w1(1) have "swept w0 w1" by (rule swept_trans [rotated])
    with w1(2) True show ?thesis
      by (subst run_command.simps) (auto simp: Let_def)
  next
    case False
    have "changes h window ?w (save_workspace h window kw ?w)"
      by (rule changes_save_workspace)
    with sw False show ?thesis
      by (subst run_command.simps) (auto simp: Let_def)
  qed
next
  case (2 h window kw w0)
  let ?w = "garbageCollectOpenWorkspaceFiles w0"
  have sw: "swept w0 ?w" by (rule swept_garbageCollect)
  show ?case
  proof (cases "kw_filename kw")
    case None
    with sw changes_say [where v = ?w and h = h and window = window] show ?thesis
      by (subst run_command.simps) (auto simp: Let_def)
  next
    case (Some f)
    show ?thesis
    proof (cases "f = []")
      case True
      with Some sw changes_say [where v = ?w and h = h and window = window] show ?thesis
        by (subst run_command.simps) (auto simp: Let_def)
    next
      case False
      let ?args = "\<lparr>kw_filename = Some f, kw_promptOverwrite = True, kw_promptSave = False\<rparr>"
      let ?w' = "say (PluginCommand (w_id window) save_easy_workspace ?args) ?w"
      from "2.IH" [OF refl Some False refl]
      obtain w1 where w1: "swept ?w' w1"
        "changes h window w1 (run_command h window save_easy_workspace ?args ?w')"
        by auto
      have "swept w0 ?w'" using sw by (rule swept_say)
      with w1(1) have "swept w0 w1" by (rule swept_trans [rotated])
      with w1(2) Some False show ?thesis
        by (subst run_command.simps) (auto simp: Let_def)
    qed
  qed
next
  case (3 h window kw w0)
  let ?w = "say (StatusMessage ''Opening workspace...'') (garbageCollectOpenWorkspaceFiles w0)"
  have sw: "swept w0 ?w" by (intro swept_say swept_garbageCollect)
  show ?case
  proof (cases "case kw_filename kw of None \<Rightarrow> [] | Some f \<Rightarrow> f")
    case Nil
    show ?thesis
    proof (cases "getAllWorkspaceFiles h")
      case (Inl e)
      have "changes h window ?w (?w, Some e)" by (rule changes_same [of _ _ "[]"]) simp_all
      with Nil Inl sw show ?thesis
        by (subst run_command.simps) (auto simp: Let_def)
    next
      case (Inr fls)
      with Nil sw changes_say [where v = ?w and h = h and window = window] show ?thesis
        by (subst run_command.simps) (auto simp: Let_def)
    qed
  next
    case (Cons c cs)
    have "changes h window ?w (open_workspace_file h window (c # cs) ?w)"
      by (rule changes_open_workspace_file)
    with Cons sw show ?thesis
      by (subst run_command.simps) (auto simp: Let_def)
  qed
next
  case (4 h window kw w0)
  let ?w = "garbageCollectOpenWorkspaceFiles w0"
  have sw: "swept w0 ?w" by (rule swept_garbageCollect)
  show ?case
  proof (cases "getAllWorkspaceFiles h")
    case (Inl e)
    have "changes h window ?w (?w, Some e)" by (rule changes_same [of _ _ "[]"]) simp_all
    with Inl sw show ?thesis
      by (subst run_command.simps) (auto simp: Let_def)
  next
    case (Inr fls)
    with sw changes_say2 [where v = ?w and h = h and window = window] show ?thesis
      by (subst run_command.simps) (auto simp: Let_def)
  qed
next
  case (5 h window kw w0)
  let ?w = "garbageCollectOpenWorkspaceFiles w0"
  have sw: "swept w0 ?w" by (rule swept_garbageCollect)
  show ?case
  proof (cases "getWorkspacesDir (h_settings h) (h_packages_path h)")
    case (Inl e)
    have "changes h window ?w (?w, Some e)" by (rule changes_same [of _ _ "[]"]) simp_all
    with Inl sw show ?thesis
      by (subst run_command.simps) (auto simp: Let_def)
  next
    case (Inr d)
    with sw changes_say [where v = ?w and h = h and window = window] show ?thesis
      by (subst run_command.simps) (auto simp: Let_def)
  qed
next
  case (6 h window kw w0)
  let ?w = "garbageCollectOpenWorkspaceFiles w0"
  have sw: "swept w0 ?w" by (rule swept_garbageCollect)
  show ?case
  proof (cases "reopenWorkspace ?w \<noteq> [] \<and> isfile (disk ?w) (reopenWorkspace ?w)")
    case True
    let ?args = "\<lparr>kw_filename = Some (reopenWorkspace ?w), kw_promptOverwrite = False,
                   kw_promptSave = False\<rparr>"
    let ?w' = "say (PluginCommand (w_id window) open_easy_workspace ?args) ?w"
    from True "6.IH" [OF refl _ refl]
    obtain w1 where w1: "swept ?w' w1"
      "changes h window w1 (run_command h window open_easy_workspace ?args ?w')"
      by auto
    have "swept w0 ?w'" using sw by (rule swept_say)
    with w1(1) have "swept w0 w1" by (rule swept_trans [rotated])
    with w1(2) True show ?thesis
      by (subst run_command.simps) (auto simp: Let_def)
  next
    case False
    with sw changes_say [where v = ?w and h = h and window = window] show ?thesis
      by (subst run_command.simps) (auto simp: Let_def)
  qed
qed


lemma example_capture_built:
  "buildFromWindow EasyWorkspace_init example_window = Inr example_capture"
  by (simp add: buildFromWindow_def example_window_def example_capture_def
      EasyWorkspace_init_def group_dict_def active_index_def same_view_def
      saved_view_def unsaved_view_def)

lemma example_path:
  "getWorkspaceFilepath Map.empty ''/pk'' ''/pk/EasyWorkspace/workspaces/proj.ws''
     = Inr ''/pk/EasyWorkspace/workspaces/proj.ws''"
  by (simp add: getWorkspaceFilepath_def getWorkspacesDir_def settings_get_def path_join_def
      starts_with_sep_def ends_with_sep_def splitext_def splitext_scan.simps)

lemma example_saveToFile:
  "saveToFile \<lparr>dirs = {}, files = Map.empty\<rparr> ws ''/pk/EasyWorkspace/workspaces/proj.ws''
     = Inr (\<lparr>dirs = {''/pk/EasyWorkspace/workspaces''},
              files = [''/pk/EasyWorkspace/workspaces/proj.ws'' \<mapsto> encode_value (vars ws)]\<rparr>,
            ws\<lparr>filename := ''/pk/EasyWorkspace/workspaces/proj.ws''\<rparr>)"
  by (simp add: saveToFile_def dirname_def rstrip_def isdir_def isfile_def makedirs_def
      open_write_def)

lemma example_save:
  "run_command example_host example_window save_easy_workspace
     \<lparr>kw_filename = None, kw_promptOverwrite = False, kw_promptSave = False\<rparr> example_world
   = (\<lparr> openWorkspaceFiles = [(1, ''/pk/EasyWorkspace/workspaces/proj.ws'')],
         reopenWorkspace = [],
         disk = \<lparr>dirs = {''/pk/EasyWorkspace/workspaces''},
                 files = [''/pk/EasyWorkspace/workspaces/proj.ws''
                            \<mapsto> encode_value (vars example_capture)]\<rparr>,
         open_windows = [1],
         trace = [StatusMessage ''Saving workspace...'',
                  StatusMessage ''Saved /pk/EasyWorkspace/workspaces/proj.ws''] \<rparr>, None)"
proof -
  have id: "w_id example_window = 1" and st: "h_settings example_host = Map.empty"
    and pp: "h_packages_path example_host = ''/pk''"
    by (simp_all add: example_window_def example_host_def)
  show ?thesis
    by (simp add: run_command.simps garbageCollect_eq example_world_def id st pp
        save_workspace_def confirm_save_def say_def example_capture_built example_path
        example_saveToFile isfile_def)
qed

lemma buildFromWindow_fresh:
  assumes "buildFromWindow EasyWorkspace_init window = Inr ws"
  shows "filename ws = [] \<and> groups ws = PList (map group_record (w_groups window))"
proof -
  from assms obtain gi where gi: "w_get_view_index window (w_active_view window) = Inr gi"
    by (cases "w_get_view_index window (w_active_view window)")
       (simp_all add: buildFromWindow_def)
  have g0: "groups EasyWorkspace_init = PList []"
    by (simp add: EasyWorkspace_init_def)
  have "list_all capturable (w_groups window)"
  proof (rule ccontr)
    assume "\<not> list_all capturable (w_groups window)"
    from buildFromWindow_fails [OF this, of EasyWorkspace_init] assms show False by auto
  qed
  from buildFromWindow_ok [OF gi g0 this] assms show ?thesis
    by (auto simp: EasyWorkspace_init_def)
qed

text \<open>
  C5. When the host keeps its windows open and the command's window is one of them,
  then after \<^verbatim>\<open>run\<close> of any of the six commands every key of \<^verbatim>\<open>_openWorkspaceFiles\<close>
  is an open window, and every entry is either an entry of before whose window is
  open, or the path of a file just saved for the command's window, or the path just
  opened.
\<close>

theorem run_command_tracks_open_windows:
  assumes "keeps_open h" and "w_id window \<in> set (open_windows w)"
  shows "fst ` set (openWorkspaceFiles (fst (run_command h window c kw w)))
           \<subseteq> set (open_windows (fst (run_command h window c kw w)))
         \<and> (\<forall>k p. (k, p) \<in> set (openWorkspaceFiles (fst (run_command h window c kw w))) \<longrightarrow>
               ((k, p) \<in> set (openWorkspaceFiles w) \<and> k \<in> set (open_windows w))
               \<or> (k = w_id window
                   \<and> isfile (disk (fst (run_command h window c kw w))) p
                   \<and> last (trace (fst (run_command h window c kw w)))
                       = StatusMessage (''Saved '' @ p))
               \<or> last (trace (fst (run_command h window c kw w)))
                    = StatusMessage (''Opened '' @ p))"
proof -
  let ?r = "run_command h window c kw w"
  obtain w1 where sw: "swept w w1" and ch: "changes h window w1 ?r"
    using run_command_changes [of w h window c kw] by blast
  from sw have m1: "openWorkspaceFiles w1 =
        filter (\<lambda>p. fst p \<in> set (open_windows w)) (openWorkspaceFiles w)"
    and o1: "open_windows w1 = open_windows w" and d1: "disk w1 = disk w"
    by (simp_all add: swept_def)
  from ch assms(1) o1 have sub: "set (open_windows w) \<subseteq> set (open_windows (fst ?r))"
    by (simp add: changes_def)
  have keys1: "fst ` set (openWorkspaceFiles w1) \<subseteq> set (open_windows w)"
    by (auto simp: m1)
  have old: "(k, p) \<in> set (openWorkspaceFiles w) \<and> k \<in> set (open_windows w)"
    if "(k, p) \<in> set (openWorkspaceFiles w1)" for k p
    using that by (simp add: m1)
  from ch have alt:
    "(openWorkspaceFiles (fst ?r) = openWorkspaceFiles w1 \<and> disk (fst ?r) = disk w1)
     \<or> (\<exists>p ws. openWorkspaceFiles (fst ?r) =
                  dict_put (w_id window) p (openWorkspaceFiles w1)
             \<and> open_windows (fst ?r) = open_windows w1
             \<and> buildFromWindow EasyWorkspace_init window = Inr ws
             \<and> saveToFile (disk w1) ws p = Inr (disk (fst ?r), ws\<lparr>filename := p\<rparr>)
             \<and> snd ?r = None
             \<and> last (trace (fst ?r)) = StatusMessage (''Saved '' @ p))
     \<or> (\<exists>t p ws msgs pre post.
             (w_id window \<in> set (open_windows w1) \<longrightarrow> t \<in> set (open_windows (fst ?r)))
             \<and> openWorkspaceFiles (fst ?r) = dict_put t p (openWorkspaceFiles w1)
             \<and> disk (fst ?r) = disk w1
             \<and> snd ?r = None
             \<and> loadFromFile (disk w1) EasyWorkspace_init p = Inr (ws, msgs)
             \<and> applyToWindow h (disk w1) ws t pre = (post, None)
             \<and> trace (fst ?r) = post @ [StatusMessage (''Opened '' @ p)])"
    unfolding changes_def by (elim conjE)
  show ?thesis
    using alt
  proof (elim disjE exE conjE)
    assume same: "openWorkspaceFiles (fst ?r) = openWorkspaceFiles w1"
    show ?thesis
    proof (intro conjI allI impI)
      show "fst ` set (openWorkspaceFiles (fst ?r)) \<subseteq> set (open_windows (fst ?r))"
        using keys1 sub by (simp add: same)
    next
      fix k p assume "(k, p) \<in> set (openWorkspaceFiles (fst ?r))"
      then have "(k, p) \<in> set (openWorkspaceFiles w1)" by (simp add: same)
      from old [OF this]
      show "((k, p) \<in> set (openWorkspaceFiles w) \<and> k \<in> set (open_windows w))
               \<or> (k = w_id window
                   \<and> isfile (disk (fst ?r)) p
                   \<and> last (trace (fst ?r)) = StatusMessage (''Saved '' @ p))
               \<or> last (trace (fst ?r)) = StatusMessage (''Opened '' @ p)"
        by (rule disjI1)
    qed
  next
    fix p ws
    assume m: "openWorkspaceFiles (fst ?r) = dict_put (w_id window) p (openWorkspaceFiles w1)"
      and sv: "saveToFile (disk w1) ws p = Inr (disk (fst ?r), ws\<lparr>filename := p\<rparr>)"
      and msg: "last (trace (fst ?r)) = StatusMessage (''Saved '' @ p)"
    from saveToFile_stores(2) [OF sv] have f: "isfile (disk (fst ?r)) p"
      by (simp add: isfile_def)
    show ?thesis
    proof (intro conjI allI impI)
      have "fst ` set (openWorkspaceFiles (fst ?r))
              = insert (w_id window) (fst ` set (openWorkspaceFiles w1))"
        by (simp add: m keys_dict_put)
      also have "\<dots> \<subseteq> set (open_windows w)" using keys1 assms(2) by simp
      finally show "fst ` set (openWorkspaceFiles (fst ?r)) \<subseteq> set (open_windows (fst ?r))"
        using sub by (rule order_trans)
    next
      fix k q assume "(k, q) \<in> set (openWorkspaceFiles (fst ?r))"
      then have "(k, q) \<in> insert (w_id window, p) (set (openWorkspaceFiles w1))"
        using set_dict_put [of "w_id window" p "openWorkspaceFiles w1"] by (auto simp: m)
      then have "(k, q) = (w_id window, p) \<or> (k, q) \<in> set (openWorkspaceFiles w1)"
        by simp
      then show "((k, q) \<in> set (openWorkspaceFiles w) \<and> k \<in> set (open_windows w))
               \<or> (k = w_id window
                   \<and> isfile (disk (fst ?r)) q
                   \<and> last (trace (fst ?r)) = StatusMessage (''Saved '' @ q))
               \<or> last (trace (fst ?r)) = StatusMessage (''Opened '' @ q)"
      proof
        assume "(k, q) = (w_id window, p)"
        with f msg show ?thesis by simp
      next
        assume "(k, q) \<in> set (openWorkspaceFiles w1)"
        from old [OF this] show ?thesis by (rule disjI1)
      qed
    qed
  next
    fix t p ws msgs pre post
    assume tw: "w_id window \<in> set (open_windows w1) \<longrightarrow> t \<in> set (open_windows (fst ?r))"
      and m: "openWorkspaceFiles (fst ?r) = dict_put t p (openWorkspaceFiles w1)"
      and tr: "trace (fst ?r) = post @ [StatusMessage (''Opened '' @ p)]"
    from tw assms(2) o1 have t: "t \<in> set (open_windows (fst ?r))" by simp
    show ?thesis
    proof (intro conjI allI impI)
      have "fst ` set (openWorkspaceFiles (fst ?r))
              = insert t (fst ` set (openWorkspaceFiles w1))"
        by (simp add: m keys_dict_put)
      also have "\<dots> \<subseteq> set (open_windows (fst ?r))" using keys1 sub t by auto
      finally show "fst ` set (openWorkspaceFiles (fst ?r)) \<subseteq> set (open_windows (fst ?r))" .
    next
      fix k q assume "(k, q) \<in> set (openWorkspaceFiles (fst ?r))"
      then have "(k, q) \<in> insert (t, p) (set (openWorkspaceFiles w1))"
        using set_dict_put [of t p "openWorkspaceFiles w1"] by (auto simp: m)
      then have "(k, q) = (t, p) \<or> (k, q) \<in> set (openWorkspaceFiles w1)"
        by simp
      then show "((k, q) \<in> set (openWorkspaceFiles w) \<and> k \<in> set (open_windows w))
               \<or> (k = w_id window
                   \<and> isfile (disk (fst ?r)) q
                   \<and> last (trace (fst ?r)) = StatusMessage (''Saved '' @ q))
               \<or> last (trace (fst ?r)) = StatusMessage (''Opened '' @ q)"
      proof
        assume "(k, q) = (t, p)"
        with tr show ?thesis by simp
      next
        assume "(k, q) \<in> set (openWorkspaceFiles w1)"
        from old [OF this] show ?thesis by (rule disjI1)
      qed
    qed
  qed
qed

theorem run_command_tracks_open_windows_witness:
  "keeps_open example_host
   \<and> w_id example_window \<in> set (open_windows example_world)
   \<and> openWorkspaceFiles example_world
       = [(7, ''/pk/EasyWorkspace/workspaces/old.ws''),
          (1, ''/pk/EasyWorkspace/workspaces/proj.ws'')]
   \<and> open_windows example_world = [1]
   \<and> openWorkspaceFiles (fst (run_command example_host example_window save_easy_workspace
         \<lparr>kw_filename = None, kw_promptOverwrite = False, kw_promptSave = False\<rparr>
         example_world))
       = [(1, ''/pk/EasyWorkspace/workspaces/proj.ws'')]
   \<and> fst ` set (openWorkspaceFiles (fst (run_command example_host example_window
         save_easy_workspace
         \<lparr>kw_filename = None, kw_promptOverwrite = False, kw_promptSave = False\<rparr>
         example_world)))
       \<subseteq> set (open_windows (fst (run_command example_host example_window
         save_easy_workspace
         \<lparr>kw_filename = None, kw_promptOverwrite = False, kw_promptSave = False\<rparr>
         example_world)))"
proof -
  have k: "keeps_open example_host"
    by (auto simp: keeps_open_def example_host_def)
  have o: "w_id example_window \<in> set (open_windows example_world)"
    by (simp add: example_window_def example_world_def)
  from run_command_tracks_open_windows [OF k o, of save_easy_workspace
      "\<lparr>kw_filename = None, kw_promptOverwrite = False, kw_promptSave = False\<rparr>"] k o
  show ?thesis
    by (simp add: example_save) (simp add: example_world_def)
qed



text \<open>
  C7. After \<^verbatim>\<open>run\<close> of any command the reopen pointer is as before, and one of three
  holds. Nothing was saved or opened: the file system is as before and the dictionary
  is the one of before without the entries of closed windows. Or the window was
  captured into a workspace built from the constructor's defaults (its \<open>filename\<close>
  is empty and its groups are those of the window alone), that workspace was written
  by \<^verbatim>\<open>saveToFile\<close>, and the path was stored for the window. Or a workspace built from
  the constructor's defaults was loaded from a file and applied to a target window,
  and the path was stored for that window. The state a command leaves behind is the
  file system, the dictionary and the pointer.
\<close>

theorem commands_use_fresh_workspace:
  "reopenWorkspace (fst (run_command h window c kw w)) = reopenWorkspace w
   \<and> ((disk (fst (run_command h window c kw w)) = disk w
        \<and> openWorkspaceFiles (fst (run_command h window c kw w))
            = filter (\<lambda>p. fst p \<in> set (open_windows w)) (openWorkspaceFiles w))
      \<or> (\<exists>p ws. buildFromWindow EasyWorkspace_init window = Inr ws
             \<and> filename ws = []
             \<and> groups ws = PList (map group_record (w_groups window))
             \<and> saveToFile (disk w) ws p
                 = Inr (disk (fst (run_command h window c kw w)), ws\<lparr>filename := p\<rparr>)
             \<and> files (disk (fst (run_command h window c kw w))) p
                 = Some (encode_value (vars ws))
             \<and> openWorkspaceFiles (fst (run_command h window c kw w))
                 = dict_put (w_id window) p
                     (filter (\<lambda>p. fst p \<in> set (open_windows w)) (openWorkspaceFiles w)))
      \<or> (\<exists>t p ws msgs pre post.
             loadFromFile (disk w) EasyWorkspace_init p = Inr (ws, msgs)
             \<and> applyToWindow h (disk w) ws t pre = (post, None)
             \<and> trace (fst (run_command h window c kw w))
                 = post @ [StatusMessage (''Opened '' @ p)]
             \<and> disk (fst (run_command h window c kw w)) = disk w
             \<and> openWorkspaceFiles (fst (run_command h window c kw w))
                 = dict_put t p
                     (filter (\<lambda>p. fst p \<in> set (open_windows w)) (openWorkspaceFiles w))))"
proof -
  let ?r = "run_command h window c kw w"
  let ?swept = "filter (\<lambda>p. fst p \<in> set (open_windows w)) (openWorkspaceFiles w)"
  obtain w1 where sw: "swept w w1" and ch: "changes h window w1 ?r"
    using run_command_changes [of w h window c kw] by (elim exE conjE)
  from sw have m1: "openWorkspaceFiles w1 = ?swept"
    and d1: "disk w1 = disk w" and r1: "reopenWorkspace w1 = reopenWorkspace w"
    by (simp_all add: swept_def)
  from ch have ro: "reopenWorkspace (fst ?r) = reopenWorkspace w"
    by (simp add: changes_def r1)
  from ch have alt:
    "(openWorkspaceFiles (fst ?r) = openWorkspaceFiles w1 \<and> disk (fst ?r) = disk w1)
     \<or> (\<exists>p ws. openWorkspaceFiles (fst ?r) =
                  dict_put (w_id window) p (openWorkspaceFiles w1)
             \<and> open_windows (fst ?r) = open_windows w1
             \<and> buildFromWindow EasyWorkspace_init window = Inr ws
             \<and> saveToFile (disk w1) ws p = Inr (disk (fst ?r), ws\<lparr>filename := p\<rparr>)
             \<and> snd ?r = None
             \<and> last (trace (fst ?r)) = StatusMessage (''Saved '' @ p))
     \<or> (\<exists>t p ws msgs pre post.
             (w_id window \<in> set (open_windows w1) \<longrightarrow> t \<in> set (open_windows (fst ?r)))
             \<and> openWorkspaceFiles (fst ?r) = dict_put t p (openWorkspaceFiles w1)
             \<and> disk (fst ?r) = disk w1
             \<and> snd ?r = None
             \<and> loadFromFile (disk w1) EasyWorkspace_init p = Inr (ws, msgs)
             \<and> applyToWindow h (disk w1) ws t pre = (post, None)
             \<and> trace (fst ?r) = post @ [StatusMessage (''Opened '' @ p)])"
    unfolding changes_def by (elim conjE)
  show ?thesis
    using alt
  proof (elim disjE exE conjE)
    assume "openWorkspaceFiles (fst ?r) = openWorkspaceFiles w1" "disk (fst ?r) = disk w1"
    with ro m1 d1 show ?thesis by simp
  next
    fix p ws
    assume m: "openWorkspaceFiles (fst ?r) = dict_put (w_id window) p (openWorkspaceFiles w1)"
      and b: "buildFromWindow EasyWorkspace_init window = Inr ws"
      and sv: "saveToFile (disk w1) ws p = Inr (disk (fst ?r), ws\<lparr>filename := p\<rparr>)"
    note fr = buildFromWindow_fresh [OF b]
    note st = saveToFile_stores(2) [OF sv]
    have "\<exists>p ws. buildFromWindow EasyWorkspace_init window = Inr ws
             \<and> filename ws = []
             \<and> groups ws = PList (map group_record (w_groups window))
             \<and> saveToFile (disk w) ws p = Inr (disk (fst ?r), ws\<lparr>filename := p\<rparr>)
             \<and> files (disk (fst ?r)) p = Some (encode_value (vars ws))
             \<and> openWorkspaceFiles (fst ?r) = dict_put (w_id window) p ?swept"
      apply (rule exI [of _ p], rule exI [of _ ws])
      using b fr st sv m by (simp add: m1 d1)
    with ro show ?thesis by (intro conjI disjI2 disjI1)
  next
    fix t p ws msgs pre post
    assume m: "openWorkspaceFiles (fst ?r) = dict_put t p (openWorkspaceFiles w1)"
      and d: "disk (fst ?r) = disk w1"
      and l: "loadFromFile (disk w1) EasyWorkspace_init p = Inr (ws, msgs)"
      and a: "applyToWindow h (disk w1) ws t pre = (post, None)"
      and tr: "trace (fst ?r) = post @ [StatusMessage (''Opened '' @ p)]"
    have "\<exists>t p ws msgs pre post.
             loadFromFile (disk w) EasyWorkspace_init p = Inr (ws, msgs)
             \<and> applyToWindow h (disk w) ws t pre = (post, None)
             \<and> trace (fst ?r) = post @ [StatusMessage (''Opened '' @ p)]
             \<and> disk (fst ?r) = disk w
             \<and> openWorkspaceFiles (fst ?r) = dict_put t p ?swept"
      apply (rule exI [of _ t], rule exI [of _ p], rule exI [of _ ws], rule exI [of _ msgs],
             rule exI [of _ pre], rule exI [of _ post])
      using m d l a tr by (simp add: m1 d1)
    with ro show ?thesis by (intro conjI disjI2)
  qed
qed

theorem commands_use_fresh_workspace_witness:
  "buildFromWindow EasyWorkspace_init example_window = Inr example_capture
   \<and> filename example_capture = []
   \<and> disk (fst (run_command example_host example_window save_easy_workspace
         \<lparr>kw_filename = None, kw_promptOverwrite = False, kw_promptSave = False\<rparr>
         example_world))
       = \<lparr>dirs = {''/pk/EasyWorkspace/workspaces''},
           files = [''/pk/EasyWorkspace/workspaces/proj.ws''
                      \<mapsto> encode_value (vars example_capture)]\<rparr>
   \<and> reopenWorkspace (fst (run_command example_host example_window save_easy_workspace
         \<lparr>kw_filename = None, kw_promptOverwrite = False, kw_promptSave = False\<rparr>
         example_world)) = reopenWorkspace example_world"
  using commands_use_fresh_workspace [of example_host example_window save_easy_workspace
      "\<lparr>kw_filename = None, kw_promptOverwrite = False, kw_promptSave = False\<rparr>"
      example_world] example_capture_built
  by (simp add: example_save example_capture_def)

end
